theory Spec2Isabelle
  imports Main "HOL-Library.Sublist" "HOL-Library.Multiset"
begin

section \<open>Strings\<close>

text \<open>
  Text is modelled as \<^typ>\<open>string\<close>, a list of 8-bit characters. \<open>str.lower()\<close> is
  modelled on the ASCII letters; every other character is left as it is.
\<close>

definition lower_char :: "char \<Rightarrow> char" where
  "lower_char c =
     (case map_of (zip ''ABCDEFGHIJKLMNOPQRSTUVWXYZ'' ''abcdefghijklmnopqrstuvwxyz'') c of
        None \<Rightarrow> c
      | Some l \<Rightarrow> l)"

definition lower :: "string \<Rightarrow> string" where
  "lower s = map lower_char s"

text \<open>\<open>sub in s\<close> on strings: \<open>sub\<close> occurs in \<open>s\<close> as a contiguous run.\<close>

definition str_in :: "string \<Rightarrow> string \<Rightarrow> bool" where
  "str_in sub s = sublist sub s"

text \<open>\<open>s.startswith(p)\<close>.\<close>

definition startswith :: "string \<Rightarrow> string \<Rightarrow> bool" where
  "startswith s p = prefix p s"

text \<open>\<open>s.split(c)\<close> for a one-character separator.\<close>

fun split_sep :: "char \<Rightarrow> string \<Rightarrow> string list" where
  "split_sep c [] = [[]]"
| "split_sep c (x # xs) =
     (if x = c then [] # split_sep c xs
      else (case split_sep c xs of
              [] \<Rightarrow> [[x]]
            | w # ws \<Rightarrow> (x # w) # ws))"

text \<open>\<open>sep.join(xs)\<close>.\<close>

fun join_with :: "string \<Rightarrow> string list \<Rightarrow> string" where
  "join_with sep [] = []"
| "join_with sep [x] = x"
| "join_with sep (x # y # ys) = x @ sep @ join_with sep (y # ys)"

text \<open>\<open>s.rfind(c)\<close>: the last index of \<open>c\<close>, \<open>None\<close> for Python's \<open>-1\<close>.\<close>

definition rfind :: "char \<Rightarrow> string \<Rightarrow> nat option" where
  "rfind c s =
     (if c \<in> set s then Some (length s - 1 - length (takeWhile (\<lambda>x. x \<noteq> c) (rev s)))
      else None)"

section \<open>Paths\<close>

text \<open>
  A \<open>pathlib\<close> path on a POSIX system: the anchor (\<open>''''\<close> for a relative path,
  \<open>''/''\<close> or \<open>''//''\<close> for an absolute one) and the segments after it.
\<close>

datatype path = Path (anchor: string) (tail: "string list")

datatype error = ValueError

text \<open>\<open>Path(s)\<close> for one string: the root is split off, empty and \<open>.\<close> segments are dropped.\<close>

definition splitroot :: "string \<Rightarrow> string \<times> string" where
  "splitroot p =
     (if take 1 p \<noteq> ''/'' then ('''', p)
      else if take 1 (drop 1 p) \<noteq> ''/'' \<or> take 1 (drop 2 p) = ''/'' then (''/'', drop 1 p)
      else (take 2 p, drop 2 p))"

definition parse_path :: "string \<Rightarrow> path" where
  "parse_path s =
     (case splitroot s of
        (root, rel) \<Rightarrow> Path root (filter (\<lambda>x. x \<noteq> [] \<and> x \<noteq> ''.'') (split_sep CHR ''/'' rel)))"

text \<open>\<open>p / s\<close>: an absolute right operand replaces the left one.\<close>

definition joinpath :: "path \<Rightarrow> string \<Rightarrow> path" where
  "joinpath p s =
     (if startswith s ''/'' then parse_path s
      else Path (anchor p) (tail p @ tail (parse_path s)))"

text \<open>\<open>p.parts\<close>: the anchor, when there is one, is the first part.\<close>

definition path_parts :: "path \<Rightarrow> string list" where
  "path_parts p = (if anchor p = [] then tail p else anchor p # tail p)"

text \<open>\<open>str(p)\<close>.\<close>

definition str_path :: "path \<Rightarrow> string" where
  "str_path p =
     (if anchor p = [] \<and> tail p = [] then ''.''
      else anchor p @ join_with ''/'' (tail p))"

text \<open>\<open>p.name\<close>: the last segment, the empty string when there is none.\<close>

definition path_name :: "path \<Rightarrow> string" where
  "path_name p = (if tail p = [] then [] else last (tail p))"

text \<open>
  \<open>p.suffix\<close>: the name from its last dot on, when that dot is neither the first nor
  the last character of the name (\<open>0 < i < len(name) - 1\<close> for \<open>i = name.rfind('.')\<close>).
\<close>

definition path_suffix :: "path \<Rightarrow> string" where
  "path_suffix p =
     (let name = path_name p in
      case rfind CHR ''.'' name of
        None \<Rightarrow> []
      | Some i \<Rightarrow> if 0 < i \<and> i < length name - 1 then drop i name else [])"

text \<open>
  \<open>p.relative_to(other)\<close>: raises \<open>ValueError\<close> unless \<open>other\<close> is \<open>p\<close> or one of
  its ancestors.
\<close>

definition relative_to :: "path \<Rightarrow> path \<Rightarrow> error + path" where
  "relative_to p other =
     (if anchor p = anchor other \<and> prefix (tail other) (tail p)
      then Inr (Path [] (drop (length (tail other)) (tail p)))
      else Inl ValueError)"

section \<open>Exclusion rules\<close>

text \<open>
  The project a file is looked up under in the rule table: its first part relative to
  \<open>dev_root\<close>, or, for a file outside \<open>dev_root\<close>, the first of \<open>parts\<close> (its parts
  relative to \<open>base_path\<close>). \<open>None\<close> is Python's \<open>None\<close>.
\<close>

definition rule_project :: "path \<Rightarrow> path \<Rightarrow> string list \<Rightarrow> string option" where
  "rule_project file_path dev_root parts =
     (case relative_to file_path dev_root of
        Inr rel_to_dev \<Rightarrow>
          (if length (path_parts rel_to_dev) > 0 then Some (hd (path_parts rel_to_dev)) else None)
      | Inl ValueError \<Rightarrow>
          (if length parts > 0 then Some (hd parts) else None))"

text \<open>\<open>should_exclude\<close> of \<open>scripts/count-lines.py\<close>.\<close>

definition should_exclude :: "path \<Rightarrow> path \<Rightarrow> path \<Rightarrow> error + bool" where
  "should_exclude file_path base_path dev_root =
     (case relative_to file_path base_path of
        Inl e \<Rightarrow> Inl e
      | Inr rel_path \<Rightarrow>
          (let parts = path_parts rel_path in
           if str_in ''log'' (lower (str_path file_path)) \<or> path_suffix file_path = ''.log''
           then Inr True
           else if path_suffix file_path = ''.vsix'' then Inr True
           else
             (case rule_project file_path dev_root parts of
                None \<Rightarrow> Inr False
              | Some project \<Rightarrow>
                  if project = [] then Inr False
                  else if project = ''alohomora'' then
                    Inr (path_name file_path \<notin> set [''common.go'', ''alohomora.go''])
                  else if project = ''e911'' then Inr True
                  else if project = ''meraki-api'' then
                    Inr (''backups'' \<in> set parts \<or> ''logs'' \<in> set parts \<or> ''config'' \<in> set parts)
                  else if project = ''misc-scripts'' then
                    Inr (path_name file_path = ''30001_KEVLAR_61F.conf'' \<or>
                         startswith (path_name file_path) ''hpp3'' \<or>
                         path_name file_path = ''vpn_config_output.xlsx'')
                  else if project = ''defender'' then
                    Inr (path_suffix file_path = ''.csv'')
                  else if project = ''powershell-console'' then
                    Inr (path_name file_path = ''npm-packages.json'' \<or>
                         str_in ''backup'' (lower (path_name file_path)) \<or>
                         ''_prod'' \<in> set parts)
                  else Inr False)))"

text \<open>
  \<open>should_exclude\<close> of \<open>count-lines.py\<close> at the top of the repository: the same
  function with another rule table.
\<close>

definition should_exclude_top :: "path \<Rightarrow> path \<Rightarrow> path \<Rightarrow> error + bool" where
  "should_exclude_top file_path base_path dev_root =
     (case relative_to file_path base_path of
        Inl e \<Rightarrow> Inl e
      | Inr rel_path \<Rightarrow>
          (let parts = path_parts rel_path in
           if str_in ''log'' (lower (str_path file_path)) \<or> path_suffix file_path = ''.log''
           then Inr True
           else if path_suffix file_path = ''.vsix'' then Inr True
           else
             (case rule_project file_path dev_root parts of
                None \<Rightarrow> Inr False
              | Some project \<Rightarrow>
                  if project = [] then Inr False
                  else if project = ''alohomora'' then
                    Inr (path_name file_path \<notin> set [''common.go'', ''alohomora.go''])
                  else if project = ''e911'' then Inr True
                  else if project = ''mcampbel@192.168.7.202'' then Inr True
                  else if project = ''entity-network-hub'' then
                    Inr (path_name file_path \<noteq> ''vpn.tf'')
                  else if project = ''ets-nettools'' then
                    Inr (''etsnettoolsdev'' \<in> set parts)
                  else if project = ''meraki-api'' then
                    Inr (''backups'' \<in> set parts \<or> ''logs'' \<in> set parts \<or> ''config'' \<in> set parts)
                  else if project = ''misc-scripts'' then
                    Inr (path_name file_path = ''30001_KEVLAR_61F.conf'' \<or>
                         startswith (path_name file_path) ''hpp3'' \<or>
                         path_name file_path = ''vpn_config_output.xlsx'')
                  else if project = ''defender'' then
                    Inr (path_suffix file_path = ''.csv'')
                  else if project = ''powershell-aws-console'' then
                    Inr (path_name file_path = ''npm-packages.json'' \<or>
                         str_in ''backup'' (lower (path_name file_path)))
                  else Inr False)))"

section \<open>Reading a file\<close>

text \<open>
  What opening and reading a file under one encoding does is a parameter of the model:
  it yields the number of lines read, or raises. \<open>OtherException\<close> stands for every
  exception caught by \<open>except Exception\<close> that is neither of the two named ones.
\<close>

datatype encoding = UTF8 | Latin1 | CP1252

datatype read_outcome = Lines nat | UnicodeDecodeError | PermissionError | OtherException

type_synonym file_data = "encoding \<Rightarrow> read_outcome"

fun try_encodings :: "file_data \<Rightarrow> encoding list \<Rightarrow> nat" where
  "try_encodings f [] = 0"
| "try_encodings f (e # es) =
     (case f e of
        Lines n \<Rightarrow> n
      | UnicodeDecodeError \<Rightarrow> try_encodings f es
      | PermissionError \<Rightarrow> try_encodings f es
      | OtherException \<Rightarrow> 0)"

definition count_lines_in_file :: "file_data \<Rightarrow> nat" where
  "count_lines_in_file f = try_encodings f [UTF8, Latin1, CP1252]"

section \<open>Walking the tree\<close>

text \<open>
  The contents of a directory, in the order the operating system lists them: every
  entry that \<open>os.walk\<close> reports among \<open>files\<close> is a \<open>File\<close>, every one it reports
  among \<open>dirs\<close> is a \<open>Dir\<close>. A directory that cannot be listed, and a symbolic link
  to a directory, which the walk names but does not enter, are a \<open>Dir\<close> without
  entries.
\<close>

datatype entry = File string file_data | Dir string "entry list"

fun dir_names :: "entry list \<Rightarrow> string list" where
  "dir_names [] = []"
| "dir_names (File n f # es) = dir_names es"
| "dir_names (Dir n sub # es) = n # dir_names es"

fun file_entries :: "entry list \<Rightarrow> (string \<times> file_data) list" where
  "file_entries [] = []"
| "file_entries (File n f # es) = (n, f) # file_entries es"
| "file_entries (Dir n sub # es) = file_entries es"

text \<open>The filter of \<open>dirs[:] = [d for d in dirs if ...]\<close>.\<close>

definition keep_dir :: "string \<Rightarrow> bool" where
  "keep_dir d = (\<not> startswith d ''.'' \<and> d \<noteq> ''node_modules'')"

text \<open>
  \<open>os.walk(base_path)\<close>, top down, as the loop of \<open>count_project_lines\<close> drives it: one
  triple per directory (its path, the names of its subdirectories as listed, its
  files), then the triples of every subdirectory the loop body has kept in \<open>dirs\<close>.
\<close>

fun os_walk :: "path \<Rightarrow> entry list \<Rightarrow> (path \<times> string list \<times> (string \<times> file_data) list) list"
  and walk_dirs :: "path \<Rightarrow> entry list \<Rightarrow> (path \<times> string list \<times> (string \<times> file_data) list) list"
where
  "os_walk root es = (root, dir_names es, file_entries es) # walk_dirs root es"
| "walk_dirs root [] = []"
| "walk_dirs root (File n f # es) = walk_dirs root es"
| "walk_dirs root (Dir n sub # es) =
     (if keep_dir n then os_walk (joinpath root n) sub else []) @ walk_dirs root es"

declare os_walk.simps [simp del]

section \<open>Counting\<close>

record stats =
  files :: nat
  lines :: nat

datatype item_type = DirItem | FileItem

record state =
  project_stats :: "(string \<times> stats) list"
  excluded_items :: "(item_type \<times> path) list"
  total_files :: nat
  total_lines :: nat
  excluded_files :: nat

text \<open>
  \<open>project_stats\<close> is a \<open>defaultdict\<close>: it keeps its keys in the order of their first
  use, and reading a missing key inserts \<open>{'files': 0, 'lines': 0}\<close> at the end.
  \<open>dd_update k f d\<close> is \<open>d[k] = f(d[k])\<close>.
\<close>

fun dd_update :: "string \<Rightarrow> (stats \<Rightarrow> stats) \<Rightarrow> (string \<times> stats) list \<Rightarrow> (string \<times> stats) list" where
  "dd_update k f [] = [(k, f \<lparr>files = 0, lines = 0\<rparr>)]"
| "dd_update k f ((k', v) # kvs) =
     (if k = k' then (k', f v) # kvs else (k', v) # dd_update k f kvs)"

text \<open>The key a counted file is recorded under.\<close>

definition stats_key :: "path \<Rightarrow> string" where
  "stats_key rel_path =
     (if length (path_parts rel_path) > 0 then hd (path_parts rel_path) else ''root'')"

text \<open>
  The body of \<open>for file in files\<close>. An exception of \<open>should_exclude\<close> is not caught
  and ends the run; one raised inside the \<open>try\<close> skips the file.
\<close>

definition process_file :: "path \<Rightarrow> path \<Rightarrow> bool \<Rightarrow> path \<Rightarrow> file_data \<Rightarrow> state \<Rightarrow> error + state" where
  "process_file base_path dev_root show_exclusions file_path fd st =
     (case should_exclude file_path base_path dev_root of
        Inl e \<Rightarrow> Inl e
      | Inr True \<Rightarrow>
          Inr (st\<lparr>excluded_files := excluded_files st + 1,
                  excluded_items :=
                    (if show_exclusions then excluded_items st @ [(FileItem, file_path)]
                     else excluded_items st)\<rparr>)
      | Inr False \<Rightarrow>
          (case relative_to file_path base_path of
             Inl e \<Rightarrow> Inr st
           | Inr rel_path \<Rightarrow>
               (let project = stats_key rel_path;
                    n = count_lines_in_file fd
                in Inr (st\<lparr>project_stats :=
                             dd_update project (\<lambda>s. s\<lparr>lines := lines s + n\<rparr>)
                               (dd_update project (\<lambda>s. s\<lparr>files := files s + 1\<rparr>)
                                  (project_stats st)),
                           total_files := total_files st + 1,
                           total_lines := total_lines st + n\<rparr>))))"

fun files_loop :: "path \<Rightarrow> path \<Rightarrow> bool \<Rightarrow> path \<Rightarrow> (string \<times> file_data) list \<Rightarrow> state \<Rightarrow> error + state" where
  "files_loop base_path dev_root show_exclusions root [] st = Inr st"
| "files_loop base_path dev_root show_exclusions root ((file, fd) # rest) st =
     (case process_file base_path dev_root show_exclusions (joinpath root file) fd st of
        Inl e \<Rightarrow> Inl e
      | Inr st' \<Rightarrow> files_loop base_path dev_root show_exclusions root rest st')"

text \<open>The body of \<open>for root, dirs, files in os.walk(base_path)\<close>, over the triples.\<close>

fun walk_loop :: "path \<Rightarrow> path \<Rightarrow> bool \<Rightarrow> (path \<times> string list \<times> (string \<times> file_data) list) list \<Rightarrow> state \<Rightarrow> error + state" where
  "walk_loop base_path dev_root show_exclusions [] st = Inr st"
| "walk_loop base_path dev_root show_exclusions ((root, original_dirs, fs) # rest) st =
     (let dirs = filter keep_dir original_dirs;
          st1 = (if show_exclusions
                 then st\<lparr>excluded_items := excluded_items st @
                           map (\<lambda>d. (DirItem, joinpath root d))
                             (filter (\<lambda>d. d \<notin> set dirs) original_dirs)\<rparr>
                 else st)
      in case files_loop base_path dev_root show_exclusions root fs st1 of
           Inl e \<Rightarrow> Inl e
         | Inr st2 \<Rightarrow> walk_loop base_path dev_root show_exclusions rest st2)"

definition init_state :: state where
  "init_state =
     \<lparr>project_stats = [], excluded_items = [], total_files = 0, total_lines = 0,
      excluded_files = 0\<rparr>"

text \<open>
  The traversal of \<open>count_project_lines\<close>: \<open>entries\<close> is the content of the directory
  \<open>base_path\<close>, and the result is the counters when the loop ends.
\<close>

definition count_project_lines :: "path \<Rightarrow> path option \<Rightarrow> bool \<Rightarrow> entry list \<Rightarrow> error + state" where
  "count_project_lines base_path dev_root show_exclusions entries =
     (let dev_root' = (case dev_root of None \<Rightarrow> base_path | Some d \<Rightarrow> d)
      in walk_loop base_path dev_root' show_exclusions (os_walk base_path entries) init_state)"

text \<open>
  \<open>sorted(xs, key=key, reverse=True)\<close>: the list is reversed, sorted by a stable
  ascending sort and reversed again.
\<close>

definition sorted_reverse :: "('a \<Rightarrow> nat) \<Rightarrow> 'a list \<Rightarrow> 'a list" where
  "sorted_reverse key xs = rev (sort_key key (rev xs))"

text \<open>The rows of the report, in the order they are printed.\<close>

definition sorted_projects :: "state \<Rightarrow> (string \<times> stats) list" where
  "sorted_projects st = sorted_reverse (\<lambda>x. lines (snd x)) (project_stats st)"

section \<open>The command line\<close>

text \<open>\<open>str(n)\<close> and \<open>f"{n:,}"\<close> for a number that is not negative.\<close>

definition digit_char :: "nat \<Rightarrow> char" where
  "digit_char d = ''0123456789'' ! (d mod 10)"

fun str_nat :: "nat \<Rightarrow> string" where
  "str_nat n = (if n < 10 then [digit_char n] else str_nat (n div 10) @ [digit_char (n mod 10)])"

fun format_commas :: "nat \<Rightarrow> string" where
  "format_commas n =
     (if n < 1000 then str_nat n
      else format_commas (n div 1000) @ '','' @
           [digit_char (n mod 1000 div 100), digit_char (n mod 100 div 10), digit_char (n mod 10)])"

declare str_nat.simps [simp del] format_commas.simps [simp del]

text \<open>
  What the start of the script finds in \<open>config.json\<close>: the \<open>devRoot\<close> string, one of
  the three exceptions it catches (with the exception's text), or any other exception.
\<close>

datatype config_result = Loaded string | LoadFailed string | LoadCrashed

text \<open>
  What a path names in the file system; \<open>None\<close> when it does not exist. \<open>StatFails\<close>
  is a path whose \<open>stat\<close> raises an error that \<open>exists()\<close> does not turn into
  \<open>False\<close>, such as a parent directory that may not be searched.
\<close>

datatype node = RegularFile file_data | Directory | Special | StatFails

text \<open>
  How the script ends: \<open>sys.exit\<close> with a code after the given \<open>print\<close> calls, an
  exception nobody catches, or the call \<open>count_project_lines(base_path, dev_root,
  show_exclusions)\<close> with nothing printed before it.
\<close>

datatype outcome =
    Exit int "string list"
  | Traceback
  | Call_count_project_lines path path bool

text \<open>
  The arguments left when the first \<open>--show-exclusions\<close> has been removed, and the
  absolute path made of a target argument.
\<close>

definition path_args :: "string list \<Rightarrow> string list" where
  "path_args argv =
     (if ''--show-exclusions'' \<in> set argv then remove1 ''--show-exclusions'' argv else argv)"

definition target_base :: "string \<Rightarrow> string \<Rightarrow> path" where
  "target_base cwd t = (if startswith t ''/'' then parse_path t else joinpath (parse_path cwd) t)"

text \<open>
  The \<open>__main__\<close> block of \<open>scripts/count-lines.py\<close>. \<open>argv\<close> is \<open>sys.argv[1:]\<close>,
  \<open>cwd\<close> is \<open>os.getcwd()\<close>, \<open>fs\<close> answers \<open>exists()\<close> and \<open>is_file()\<close>.
\<close>

definition main :: "path \<Rightarrow> config_result \<Rightarrow> string list \<Rightarrow> string \<Rightarrow> (path \<Rightarrow> node option) \<Rightarrow> outcome" where
  "main config_path config argv cwd fs =
     (case config of
        LoadCrashed \<Rightarrow> Traceback
      | LoadFailed e \<Rightarrow>
          Exit 1 [''Error: Could not read devRoot from config.json: '' @ e,
                  ''Expected config at: '' @ str_path config_path]
      | Loaded d \<Rightarrow>
          (let dev_root = parse_path d;
               show_exclusions = (''--show-exclusions'' \<in> set argv);
               args = path_args argv;
               target_path = (if length args > 0 then Some (hd args) else None)
           in case target_path of
                None \<Rightarrow> Call_count_project_lines dev_root dev_root show_exclusions
              | Some t \<Rightarrow>
                  if t = [] then Call_count_project_lines dev_root dev_root show_exclusions
                  else
                    (let base_path = target_base cwd t
                     in case fs base_path of
                          None \<Rightarrow> Exit 1 [''Error: Path does not exist: '' @ str_path base_path]
                        | Some (RegularFile fd) \<Rightarrow>
                            Exit 0 [[CHR 0x0A] @ ''Counting single file: '' @ str_path base_path,
                                    ''Lines: '' @ format_commas (count_lines_in_file fd)]
                        | Some StatFails \<Rightarrow> Traceback
                        | Some _ \<Rightarrow>
                            Call_count_project_lines base_path dev_root show_exclusions)))"

section \<open>Notions used in the statements\<close>

text \<open>\<open>p\<close> is \<open>other\<close> or lies below it.\<close>

definition is_relative_to :: "path \<Rightarrow> path \<Rightarrow> bool" where
  "is_relative_to p other = (anchor p = anchor other \<and> prefix (tail other) (tail p))"

text \<open>
  A name a directory can list: not empty, not \<open>.\<close>, and without a separator. A tree
  is valid when every name in it is.
\<close>

definition valid_name :: "string \<Rightarrow> bool" where
  "valid_name n = (n \<noteq> [] \<and> n \<noteq> ''.'' \<and> CHR ''/'' \<notin> set n)"

fun valid_tree :: "entry list \<Rightarrow> bool" where
  "valid_tree [] = True"
| "valid_tree (File n f # es) = (valid_name n \<and> valid_tree es)"
| "valid_tree (Dir n sub # es) = (valid_name n \<and> valid_tree sub \<and> valid_tree es)"

fun entry_name :: "entry \<Rightarrow> string" where
  "entry_name (File n f) = n"
| "entry_name (Dir n sub) = n"

text \<open>The files the loop of \<open>count_project_lines\<close> meets, in order, each with its path.\<close>

definition walked_files :: "path \<Rightarrow> entry list \<Rightarrow> (path \<times> file_data) list" where
  "walked_files base_path entries =
     concat (map (\<lambda>(root, ds, fs). map (\<lambda>(n, fd). (joinpath root n, fd)) fs)
               (os_walk base_path entries))"

text \<open>The counters recorded under a key; zero when the key is absent.\<close>

definition files_of :: "state \<Rightarrow> string \<Rightarrow> nat" where
  "files_of st k = (case map_of (project_stats st) k of None \<Rightarrow> 0 | Some s \<Rightarrow> files s)"

definition lines_of :: "state \<Rightarrow> string \<Rightarrow> nat" where
  "lines_of st k = (case map_of (project_stats st) k of None \<Rightarrow> 0 | Some s \<Rightarrow> lines s)"

text \<open>The sums of the per-project counters.\<close>

definition sum_files :: "state \<Rightarrow> nat" where
  "sum_files st = sum_list (map (\<lambda>kv. files (snd kv)) (project_stats st))"

definition sum_lines :: "state \<Rightarrow> nat" where
  "sum_lines st = sum_list (map (\<lambda>kv. lines (snd kv)) (project_stats st))"

text \<open>
  The key a file below \<open>base_path\<close> is recorded under when it is counted; the files of
  a list that are counted, the ones that are excluded, the ones recorded under a key,
  and the lines of a list of files.
\<close>

definition file_key :: "path \<Rightarrow> path \<Rightarrow> string option" where
  "file_key base_path file_path =
     (case relative_to file_path base_path of
        Inl e \<Rightarrow> None
      | Inr rel_path \<Rightarrow> Some (stats_key rel_path))"

definition included :: "path \<Rightarrow> path \<Rightarrow> (path \<times> file_data) list \<Rightarrow> (path \<times> file_data) list" where
  "included base_path dev_root ps =
     filter (\<lambda>p. should_exclude (fst p) base_path dev_root = Inr False) ps"

definition excluded :: "path \<Rightarrow> path \<Rightarrow> (path \<times> file_data) list \<Rightarrow> (path \<times> file_data) list" where
  "excluded base_path dev_root ps =
     filter (\<lambda>p. should_exclude (fst p) base_path dev_root = Inr True) ps"

definition under_key :: "path \<Rightarrow> string \<Rightarrow> (path \<times> file_data) list \<Rightarrow> (path \<times> file_data) list" where
  "under_key base_path k ps = filter (\<lambda>p. file_key base_path (fst p) = Some k) ps"

definition line_total :: "(path \<times> file_data) list \<Rightarrow> nat" where
  "line_total ps = sum_list (map (\<lambda>p. count_lines_in_file (snd p)) ps)"

text \<open>
  \<open>tallied b d ps st st'\<close>: from \<open>st\<close> to \<open>st'\<close> the counters have grown by what the
  files \<open>ps\<close> contribute, each file once.
\<close>

definition tallied :: "path \<Rightarrow> path \<Rightarrow> (path \<times> file_data) list \<Rightarrow> state \<Rightarrow> state \<Rightarrow> bool" where
  "tallied b d ps st st' =
     (total_files st' = total_files st + length (included b d ps) \<and>
      excluded_files st' = excluded_files st + length (excluded b d ps) \<and>
      total_lines st' = total_lines st + line_total (included b d ps) \<and>
      sum_files st' = sum_files st + length (included b d ps) \<and>
      sum_lines st' = sum_lines st + line_total (included b d ps) \<and>
      (\<forall>k. files_of st' k = files_of st k + length (under_key b k (included b d ps))) \<and>
      (\<forall>k. lines_of st' k = lines_of st k + line_total (under_key b k (included b d ps))) \<and>
      (included b d ps = [] \<longrightarrow> project_stats st' = project_stats st))"

text \<open>The files of one triple of the walk, each with its path.\<close>

definition triple_files :: "(path \<times> string list \<times> (string \<times> file_data) list) \<Rightarrow> (path \<times> file_data) list" where
  "triple_files t = map (\<lambda>p. (joinpath (fst t) (fst p), snd p)) (snd (snd t))"

text \<open>A file that every encoding reads, with the given number of lines.\<close>

definition readable :: "nat \<Rightarrow> file_data" where
  "readable n e = Lines n"

text \<open>A file that no encoding decodes.\<close>

definition undecodable :: file_data where
  "undecodable e = UnicodeDecodeError"

text \<open>
  The example tree: \<open>projA/a.txt\<close> (3 lines), \<open>projA/b.log\<close> (10 lines) and
  \<open>projB/c.txt\<close> (5 lines).
\<close>

definition example_tree :: "entry list" where
  "example_tree =
     [Dir ''projA'' [File ''a.txt'' (readable 3), File ''b.log'' (readable 10)],
      Dir ''projB'' [File ''c.txt'' (readable 5)]]"

text \<open>A file system whose only entry is the regular file \<open>/data/notes.txt\<close>.\<close>

definition notes_fs :: "path \<Rightarrow> node option" where
  "notes_fs p =
     (if p = Path ''/'' [''data'', ''notes.txt''] then Some (RegularFile (readable 3)) else None)"

text \<open>
  Two listings of one directory: the projects \<open>a\<close> and \<open>b\<close>, one file of one line
  each, listed by the operating system in either order.
\<close>

definition tie_tree_1 :: "entry list" where
  "tie_tree_1 = [Dir ''b'' [File ''x.txt'' (readable 1)], Dir ''a'' [File ''y.txt'' (readable 1)]]"

definition tie_tree_2 :: "entry list" where
  "tie_tree_2 = [Dir ''a'' [File ''y.txt'' (readable 1)], Dir ''b'' [File ''x.txt'' (readable 1)]]"

text \<open>The project names of the report rows of a scan, in the order they are printed.\<close>

definition row_names :: "error + state \<Rightarrow> error + string list" where
  "row_names r = map_sum id (\<lambda>st. map fst (sorted_projects st)) r"

text \<open>A tree with a file directly in the scanned directory.\<close>

definition readme_tree :: "entry list" where
  "readme_tree = [File ''README.md'' (readable 7), Dir ''projA'' [File ''a.txt'' (readable 3)]]"

text \<open>\<open>p\<close> lies in the directory \<open>d\<close> of \<open>b\<close>, or below it.\<close>

definition in_project :: "path \<Rightarrow> string \<Rightarrow> path \<Rightarrow> bool" where
  "in_project b d p = (anchor p = anchor b \<and> prefix (tail b @ [d]) (tail p))"

text \<open>
  \<open>extend_keys acc ks\<close> puts every key of \<open>ks\<close> that is not yet in \<open>acc\<close> at its
  end, one after the other; \<open>first_seen ks\<close> are the keys of \<open>ks\<close> in the order of
  their first occurrence; \<open>keys_of b ps\<close> are the keys of the files \<open>ps\<close>, in order.
\<close>

definition extend_keys :: "string list \<Rightarrow> string list \<Rightarrow> string list" where
  "extend_keys acc ks = fold (\<lambda>k acc. if k \<in> set acc then acc else acc @ [k]) ks acc"

definition first_seen :: "string list \<Rightarrow> string list" where
  "first_seen ks = extend_keys [] ks"

definition keys_of :: "path \<Rightarrow> (path \<times> file_data) list \<Rightarrow> string list" where
  "keys_of base_path ps = List.map_filter (\<lambda>p. file_key base_path (fst p)) ps"

text \<open>The project names the rule table of \<open>scripts/count-lines.py\<close> has an entry for.\<close>

definition rule_table :: "string list" where
  "rule_table = [''alohomora'', ''e911'', ''meraki-api'', ''misc-scripts'', ''defender'',
                 ''powershell-console'']"

section \<open>Properties of the exclusion rules\<close>

lemmas eval_path = relative_to_def rule_project_def path_parts_def str_in_def lower_def
  lower_char_def str_path_def sublist_code path_suffix_def path_name_def rfind_def
  is_relative_to_def startswith_def

lemma log_path_excluded:
  assumes "is_relative_to file_path base_path"
    and "str_in ''log'' (lower (str_path file_path))"
  shows "should_exclude file_path base_path dev_root = Inr True \<and>
         should_exclude_top file_path base_path dev_root = Inr True"
  using assms
  by (simp add: should_exclude_def should_exclude_top_def relative_to_def is_relative_to_def)

text \<open>
  C2: a file below \<open>base_path\<close> whose path string contains \<open>log\<close> in any letter
  case, or whose suffix is \<open>.log\<close>, is excluded by both versions of \<open>should_exclude\<close>,
  whatever \<open>dev_root\<close> and hence whatever its project and the rule of that project.
  (For a path that is not below \<open>base_path\<close> the function raises before any test.)
\<close>

theorem should_exclude_log:
  assumes "str_in ''log'' (lower (str_path file_path)) \<or> path_suffix file_path = ''.log''"
  shows "should_exclude file_path base_path dev_root =
           (if is_relative_to file_path base_path then Inr True else Inl ValueError) \<and>
         should_exclude_top file_path base_path dev_root =
           (if is_relative_to file_path base_path then Inr True else Inl ValueError)"
  using assms
  by (simp add: should_exclude_def should_exclude_top_def relative_to_def is_relative_to_def)

theorem should_exclude_log_witness:
  "is_relative_to (Path ''/'' [''dev'', ''proj'', ''Catalog.txt'']) (Path ''/'' [''dev'']) \<and>
   str_in ''log'' (lower (str_path (Path ''/'' [''dev'', ''proj'', ''Catalog.txt'']))) \<and>
   should_exclude (Path ''/'' [''dev'', ''proj'', ''Catalog.txt'']) (Path ''/'' [''dev''])
     (Path ''/'' [''dev'']) = Inr True \<and>
   should_exclude_top (Path ''/'' [''dev'', ''proj'', ''Catalog.txt'']) (Path ''/'' [''dev''])
     (Path ''/'' [''dev'']) = Inr True"
proof -
  have l: "str_in ''log'' (lower (str_path (Path ''/'' [''dev'', ''proj'', ''Catalog.txt''])))"
    by (simp add: str_in_def lower_def lower_char_def str_path_def sublist_code)
  then have h: "str_in ''log'' (lower (str_path (Path ''/'' [''dev'', ''proj'', ''Catalog.txt''])))
           \<or> path_suffix (Path ''/'' [''dev'', ''proj'', ''Catalog.txt'']) = ''.log''"
    by (rule disjI1)
  have r: "is_relative_to (Path ''/'' [''dev'', ''proj'', ''Catalog.txt'']) (Path ''/'' [''dev''])"
    by (simp add: is_relative_to_def)
  show ?thesis
    using should_exclude_log [OF h, of "Path ''/'' [''dev'']" "Path ''/'' [''dev'']"] r l
    by simp
qed

lemma should_exclude_not_isl:
  assumes "relative_to file_path base_path = Inr rel_path"
  shows "\<not> isl (should_exclude file_path base_path dev_root)"
  using assms
  by (simp add: should_exclude_def Let_def split: option.split)

lemma should_exclude_returns:
  assumes "relative_to file_path base_path = Inr rel_path"
  shows "\<exists>r. should_exclude file_path base_path dev_root = Inr r"
  using should_exclude_not_isl [OF assms, of dev_root]
  by (cases "should_exclude file_path base_path dev_root") auto

lemma should_exclude_default:
  assumes "relative_to file_path base_path = Inr rel_path"
    and "\<not> str_in ''log'' (lower (str_path file_path))"
    and "path_suffix file_path \<noteq> ''.log''" and "path_suffix file_path \<noteq> ''.vsix''"
    and "\<forall>p. rule_project file_path dev_root (path_parts rel_path) = Some p
                 \<longrightarrow> p \<notin> set rule_table"
  shows "should_exclude file_path base_path dev_root = Inr False"
proof (cases "rule_project file_path dev_root (path_parts rel_path)")
  case None
  with assms show ?thesis by (simp add: should_exclude_def Let_def)
next
  case (Some p)
  with assms(5) have "p \<notin> set rule_table" by blast
  then have "p \<noteq> ''alohomora''" "p \<noteq> ''e911''" "p \<noteq> ''meraki-api''" "p \<noteq> ''misc-scripts''"
    "p \<noteq> ''defender''" "p \<noteq> ''powershell-console''"
    by (auto simp: rule_table_def)
  with Some assms(1-4) show ?thesis by (simp add: should_exclude_def Let_def)
qed

lemma should_exclude_outside_base:
  assumes "\<not> is_relative_to file_path base_path"
  shows "should_exclude file_path base_path dev_root = Inl ValueError"
proof -
  from assms have "relative_to file_path base_path = Inl ValueError"
    by (auto simp: relative_to_def is_relative_to_def)
  then show ?thesis by (simp add: should_exclude_def)
qed

lemma suffix_go:
  "path_name f = ''common.go'' \<or> path_name f = ''alohomora.go'' \<Longrightarrow> path_suffix f = ''.go''"
  by (auto simp: path_suffix_def rfind_def)

text \<open>
  C7, as stated, fails: a file of project \<open>alohomora\<close> that is named \<open>common.go\<close> is
  excluded all the same when its path contains \<open>log\<close>, here in the directory name
  \<open>catalog\<close>, because the global exclusions are tested first.
\<close>

theorem alohomora_counterexample:
  "relative_to (Path ''/'' [''dev'', ''alohomora'', ''catalog'', ''common.go'']) (Path ''/'' [''dev''])
     = Inr (Path [] [''alohomora'', ''catalog'', ''common.go'']) \<and>
   rule_project (Path ''/'' [''dev'', ''alohomora'', ''catalog'', ''common.go'']) (Path ''/'' [''dev''])
     (path_parts (Path [] [''alohomora'', ''catalog'', ''common.go''])) = Some ''alohomora'' \<and>
   path_name (Path ''/'' [''dev'', ''alohomora'', ''catalog'', ''common.go'']) = ''common.go'' \<and>
   should_exclude (Path ''/'' [''dev'', ''alohomora'', ''catalog'', ''common.go''])
     (Path ''/'' [''dev'']) (Path ''/'' [''dev'']) = Inr True"
  by (simp add: should_exclude_def eval_path)

text \<open>
  C7, amended: for every file below \<open>base_path\<close> whose project is \<open>alohomora\<close>, both
  versions of \<open>should_exclude\<close> return a result, and the result is to include the file
  if and only if its name is \<open>common.go\<close> or \<open>alohomora.go\<close> and its path string does
  not contain \<open>log\<close> in any letter case. Every other file of the project is excluded.
\<close>

theorem alohomora_rule:
  assumes "relative_to file_path base_path = Inr rel_path"
    and "rule_project file_path dev_root (path_parts rel_path) = Some ''alohomora''"
  shows "should_exclude file_path base_path dev_root =
           Inr (\<not> ((path_name file_path = ''common.go'' \<or> path_name file_path = ''alohomora.go'') \<and>
                    \<not> str_in ''log'' (lower (str_path file_path)))) \<and>
         should_exclude_top file_path base_path dev_root =
           Inr (\<not> ((path_name file_path = ''common.go'' \<or> path_name file_path = ''alohomora.go'') \<and>
                    \<not> str_in ''log'' (lower (str_path file_path))))"
proof (cases "path_name file_path = ''common.go'' \<or> path_name file_path = ''alohomora.go''")
  case True
  then have "path_suffix file_path = ''.go''" by (rule suffix_go)
  with True assms show ?thesis
    by (auto simp: should_exclude_def should_exclude_top_def Let_def)
next
  case False
  with assms show ?thesis
    by (auto simp: should_exclude_def should_exclude_top_def Let_def)
qed

theorem alohomora_rule_witness:
  "relative_to (Path ''/'' [''dev'', ''alohomora'', ''common.go'']) (Path ''/'' [''dev''])
     = Inr (Path [] [''alohomora'', ''common.go'']) \<and>
   rule_project (Path ''/'' [''dev'', ''alohomora'', ''common.go'']) (Path ''/'' [''dev''])
     (path_parts (Path [] [''alohomora'', ''common.go''])) = Some ''alohomora'' \<and>
   should_exclude (Path ''/'' [''dev'', ''alohomora'', ''common.go'']) (Path ''/'' [''dev''])
     (Path ''/'' [''dev'']) = Inr False \<and>
   should_exclude_top (Path ''/'' [''dev'', ''alohomora'', ''common.go'']) (Path ''/'' [''dev''])
     (Path ''/'' [''dev'']) = Inr False"
proof -
  have r: "relative_to (Path ''/'' [''dev'', ''alohomora'', ''common.go'']) (Path ''/'' [''dev''])
             = Inr (Path [] [''alohomora'', ''common.go''])"
    by (simp add: relative_to_def)
  have p: "rule_project (Path ''/'' [''dev'', ''alohomora'', ''common.go'']) (Path ''/'' [''dev''])
             (path_parts (Path [] [''alohomora'', ''common.go''])) = Some ''alohomora''"
    by (simp add: rule_project_def relative_to_def path_parts_def)
  have n: "path_name (Path ''/'' [''dev'', ''alohomora'', ''common.go'']) = ''common.go''"
    by (simp add: path_name_def)
  have g: "\<not> str_in ''log'' (lower (str_path (Path ''/'' [''dev'', ''alohomora'', ''common.go''])))"
    by (simp add: str_in_def lower_def lower_char_def str_path_def sublist_code)
  show ?thesis
    using alohomora_rule [OF r p] r p n g by simp
qed

section \<open>The traversal tallies every file once\<close>

lemma map_of_dd_update:
  "map_of (dd_update k f d) k' =
     (if k' = k then Some (f (case map_of d k of None \<Rightarrow> \<lparr>files = 0, lines = 0\<rparr> | Some v \<Rightarrow> v))
      else map_of d k')"
  by (induction d) auto

lemma sum_files_dd_files:
  "sum_list (map (\<lambda>kv. files (snd kv)) (dd_update k (\<lambda>s. s\<lparr>files := Suc (files s)\<rparr>) d))
     = Suc (sum_list (map (\<lambda>kv. files (snd kv)) d))"
  by (induction d) auto

lemma sum_files_dd_lines:
  "sum_list (map (\<lambda>kv. files (snd kv)) (dd_update k (\<lambda>s. s\<lparr>lines := lines s + n\<rparr>) d))
     = sum_list (map (\<lambda>kv. files (snd kv)) d)"
  by (induction d) auto

lemma sum_lines_dd_files:
  "sum_list (map (\<lambda>kv. lines (snd kv)) (dd_update k (\<lambda>s. s\<lparr>files := Suc (files s)\<rparr>) d))
     = sum_list (map (\<lambda>kv. lines (snd kv)) d)"
  by (induction d) auto

lemma sum_lines_dd_lines:
  "sum_list (map (\<lambda>kv. lines (snd kv)) (dd_update k (\<lambda>s. s\<lparr>lines := lines s + n\<rparr>) d))
     = sum_list (map (\<lambda>kv. lines (snd kv)) d) + n"
  by (induction d) auto

lemma tallied_refl: "tallied b d [] st st"
  by (simp add: tallied_def included_def excluded_def under_key_def line_total_def)

lemma tallied_items: "tallied b d [] st (st\<lparr>excluded_items := x\<rparr>)"
  by (simp add: tallied_def included_def excluded_def under_key_def line_total_def
      sum_files_def sum_lines_def files_of_def lines_of_def)

lemma tallied_trans:
  "tallied b d ps st st' \<Longrightarrow> tallied b d qs st' st'' \<Longrightarrow> tallied b d (ps @ qs) st st''"
  by (simp add: tallied_def included_def excluded_def under_key_def line_total_def)

lemma process_file_excluded:
  assumes "should_exclude f b d = Inr True"
  shows "\<exists>st'. process_file b d sh f fd st = Inr st' \<and> tallied b d [(f, fd)] st st'"
  using assms
  by (simp add: process_file_def tallied_def included_def excluded_def under_key_def
      line_total_def sum_files_def sum_lines_def files_of_def lines_of_def)

lemma process_file_included:
  assumes "should_exclude f b d = Inr False"
  shows "\<exists>st'. process_file b d sh f fd st = Inr st' \<and> tallied b d [(f, fd)] st st'"
proof -
  from assms obtain rel where rel: "relative_to f b = Inr rel"
    by (cases "relative_to f b") (auto simp: should_exclude_def)
  then have key: "file_key b f = Some (stats_key rel)"
    by (simp add: file_key_def)
  show ?thesis
    using assms rel key
    by (simp add: process_file_def tallied_def included_def excluded_def under_key_def
        line_total_def sum_files_def sum_lines_def files_of_def lines_of_def Let_def
        map_of_dd_update sum_files_dd_files sum_files_dd_lines sum_lines_dd_files
        sum_lines_dd_lines split: option.split)
qed

lemma process_file_tallied:
  assumes "is_relative_to f b"
  shows "\<exists>st'. process_file b d sh f fd st = Inr st' \<and> tallied b d [(f, fd)] st st'"
proof -
  from assms have "relative_to f b = Inr (Path [] (drop (length (tail b)) (tail f)))"
    by (simp add: relative_to_def is_relative_to_def)
  from should_exclude_returns [OF this, of d]
  obtain r where "should_exclude f b d = Inr r" by blast
  then show ?thesis
    using process_file_excluded [of f b d sh fd st] process_file_included [of f b d sh fd st]
    by (cases r) auto
qed

lemma files_loop_tallied:
  assumes "\<forall>p \<in> set fs. is_relative_to (joinpath root (fst p)) b"
  shows "\<exists>st'. files_loop b d sh root fs st = Inr st' \<and>
               tallied b d (map (\<lambda>p. (joinpath root (fst p), snd p)) fs) st st'"
  using assms
proof (induction fs arbitrary: st)
  case Nil
  then show ?case by (simp add: tallied_refl)
next
  case (Cons p fs)
  obtain n fd where p: "p = (n, fd)" by (cases p)
  from Cons.prems p have "is_relative_to (joinpath root n) b" by simp
  from process_file_tallied [OF this, of d sh fd st]
  obtain st1 where s1: "process_file b d sh (joinpath root n) fd st = Inr st1"
    and t1: "tallied b d [(joinpath root n, fd)] st st1" by blast
  from Cons.IH [of st1] Cons.prems
  obtain st2 where s2: "files_loop b d sh root fs st1 = Inr st2"
    and t2: "tallied b d (map (\<lambda>p. (joinpath root (fst p), snd p)) fs) st1 st2" by auto
  from tallied_trans [OF t1 t2] s1 s2 p show ?case by simp
qed

lemma walk_loop_tallied:
  assumes "\<forall>t \<in> set ts. \<forall>p \<in> set (snd (snd t)). is_relative_to (joinpath (fst t) (fst p)) b"
  shows "\<exists>st'. walk_loop b d sh ts st = Inr st' \<and>
               tallied b d (concat (map triple_files ts)) st st'"
  using assms
proof (induction ts arbitrary: st)
  case Nil
  then show ?case by (simp add: tallied_refl)
next
  case (Cons t ts)
  obtain root ds fs where t: "t = (root, ds, fs)" by (cases t)
  define st0 where "st0 = (if sh
                 then st\<lparr>excluded_items := excluded_items st @
                           map (\<lambda>d. (DirItem, joinpath root d))
                             (filter (\<lambda>d. d \<notin> set (filter keep_dir ds)) ds)\<rparr>
                 else st)"
  have t0: "tallied b d [] st st0"
    by (simp add: st0_def tallied_refl tallied_items)
  from Cons.prems t have "\<forall>p \<in> set fs. is_relative_to (joinpath root (fst p)) b" by simp
  from files_loop_tallied [OF this, of d sh st0]
  obtain st1 where s1: "files_loop b d sh root fs st0 = Inr st1"
    and t1: "tallied b d (map (\<lambda>p. (joinpath root (fst p), snd p)) fs) st0 st1" by blast
  from Cons.IH [of st1] Cons.prems
  obtain st2 where s2: "walk_loop b d sh ts st1 = Inr st2"
    and t2: "tallied b d (concat (map triple_files ts)) st1 st2" by auto
  from tallied_trans [OF t0 t1] have "tallied b d (triple_files t) st st1"
    by (simp add: triple_files_def t)
  from tallied_trans [OF this t2] s1 s2 show ?case
    by (simp add: t st0_def Let_def)
qed


lemma split_sep_no_sep: "c \<notin> set s \<Longrightarrow> split_sep c s = [s]"
  by (induction s) auto

lemma joinpath_valid:
  assumes "valid_name n"
  shows "joinpath p n = Path (anchor p) (tail p @ [n])"
proof -
  from assms obtain c cs where n: "n = c # cs" and c: "c \<noteq> CHR ''/''"
    by (cases n) (auto simp: valid_name_def)
  from assms have "split_sep CHR ''/'' n = [n]"
    by (simp add: valid_name_def split_sep_no_sep)
  with assms n c show ?thesis
    by (simp add: joinpath_def startswith_def parse_path_def splitroot_def valid_name_def)
qed

lemma is_relative_to_refl: "is_relative_to b b"
  by (simp add: is_relative_to_def)

lemma is_relative_to_join:
  "is_relative_to r b \<Longrightarrow> valid_name n \<Longrightarrow> is_relative_to (joinpath r n) b"
  by (auto simp: joinpath_valid is_relative_to_def prefix_def)

lemma valid_file_entries: "valid_tree es \<Longrightarrow> \<forall>p \<in> set (file_entries es). valid_name (fst p)"
  by (induction es rule: valid_tree.induct) auto

lemma os_walk_relative:
  "valid_tree es \<longrightarrow> is_relative_to root b \<longrightarrow>
     (\<forall>t \<in> set (os_walk root es). is_relative_to (fst t) b \<and>
        (\<forall>p \<in> set (snd (snd t)). valid_name (fst p)))"
  "valid_tree es \<longrightarrow> is_relative_to root b \<longrightarrow>
     (\<forall>t \<in> set (walk_dirs root es). is_relative_to (fst t) b \<and>
        (\<forall>p \<in> set (snd (snd t)). valid_name (fst p)))"
proof (induction root es and root es rule: os_walk_walk_dirs.induct)
  case (1 root es)
  then show ?case using valid_file_entries [of es] by (auto simp: os_walk.simps)
next
  case (2 root)
  then show ?case by simp
next
  case (3 root n f es)
  then show ?case by simp
next
  case (4 root n sub es)
  then show ?case by (fastforce simp: is_relative_to_join)
qed

lemma walked_files_eq: "walked_files b es = concat (map triple_files (os_walk b es))"
  by (simp add: walked_files_def triple_files_def [abs_def] case_prod_unfold)

lemma walked_files_relative:
  assumes "valid_tree es"
  shows "\<forall>p \<in> set (walked_files b es). is_relative_to (fst p) b"
  using os_walk_relative(1) [of es b b] assms
  by (auto simp: walked_files_eq triple_files_def is_relative_to_refl is_relative_to_join)

lemma count_project_lines_tallied:
  assumes "valid_tree es"
  shows "\<exists>st. count_project_lines b dv sh es = Inr st \<and>
              tallied b (case dv of None \<Rightarrow> b | Some d \<Rightarrow> d) (walked_files b es) init_state st"
proof -
  have "\<forall>t \<in> set (os_walk b es). \<forall>p \<in> set (snd (snd t)). is_relative_to (joinpath (fst t) (fst p)) b"
    using os_walk_relative(1) [of es b b] assms
    by (auto simp: is_relative_to_refl is_relative_to_join)
  from walk_loop_tallied [OF this]
  show ?thesis
    by (simp add: count_project_lines_def walked_files_eq Let_def)
qed

lemma keys_dd_update:
  "map fst (dd_update k f d) = (if k \<in> set (map fst d) then map fst d else map fst d @ [k])"
  by (induction d) force+

lemma keys_dd_update_twice:
  "map fst (dd_update k g (dd_update k f d))
     = (if k \<in> set (map fst d) then map fst d else map fst d @ [k])"
  by (simp add: keys_dd_update)

lemma extend_keys_Nil: "extend_keys acc [] = acc"
  by (simp add: extend_keys_def)

lemma extend_keys_single:
  "extend_keys acc [k] = (if k \<in> set acc then acc else acc @ [k])"
  by (simp add: extend_keys_def)

lemma extend_keys_append:
  "extend_keys acc (xs @ ys) = extend_keys (extend_keys acc xs) ys"
  by (simp add: extend_keys_def)

lemma distinct_extend_keys: "distinct acc \<Longrightarrow> distinct (extend_keys acc ks)"
  unfolding extend_keys_def by (induction ks arbitrary: acc) auto

lemma keys_of_append: "keys_of b (ps @ qs) = keys_of b ps @ keys_of b qs"
  by (simp add: keys_of_def map_filter_def)

lemma included_append: "included b d (ps @ qs) = included b d ps @ included b d qs"
  by (simp add: included_def)

lemma process_file_keys:
  assumes "process_file b d sh f fd st = Inr st'"
  shows "map fst (project_stats st') =
           extend_keys (map fst (project_stats st)) (keys_of b (included b d [(f, fd)]))"
proof (cases "should_exclude f b d")
  case (Inl e)
  with assms show ?thesis by (simp add: process_file_def)
next
  case (Inr r)
  show ?thesis
  proof (cases r)
    case True
    with Inr assms show ?thesis
      by (auto simp: process_file_def included_def keys_of_def map_filter_def extend_keys_Nil)
  next
    case False
    with Inr have inc: "should_exclude f b d = Inr False" by simp
    then obtain rel where rel: "relative_to f b = Inr rel"
      by (cases "relative_to f b") (auto simp: should_exclude_def)
    then have key: "file_key b f = Some (stats_key rel)" by (simp add: file_key_def)
    from inc key have k: "keys_of b (included b d [(f, fd)]) = [stats_key rel]"
      by (simp add: included_def keys_of_def map_filter_def)
    from assms inc rel have "map fst (project_stats st') =
        (if stats_key rel \<in> set (map fst (project_stats st)) then map fst (project_stats st)
         else map fst (project_stats st) @ [stats_key rel])"
      by (clarsimp simp: process_file_def Let_def keys_dd_update_twice)
    with k show ?thesis by (simp only: extend_keys_single)
  qed
qed

lemma files_loop_keys:
  "files_loop b d sh root fs st = Inr st' \<Longrightarrow>
     map fst (project_stats st') =
       extend_keys (map fst (project_stats st))
         (keys_of b (included b d (map (\<lambda>p. (joinpath root (fst p), snd p)) fs)))"
proof (induction fs arbitrary: st)
  case Nil
  then show ?case by (simp add: included_def keys_of_def map_filter_def extend_keys_Nil)
next
  case (Cons p fs)
  obtain n fd where p: "p = (n, fd)" by (cases p)
  from Cons.prems p obtain st1 where s1: "process_file b d sh (joinpath root n) fd st = Inr st1"
    and s2: "files_loop b d sh root fs st1 = Inr st'"
    by (auto split: sum.splits)
  have "included b d (map (\<lambda>p. (joinpath root (fst p), snd p)) (p # fs))
          = included b d [(joinpath root n, fd)] @
            included b d (map (\<lambda>p. (joinpath root (fst p), snd p)) fs)"
    by (simp add: p included_def)
  with process_file_keys [OF s1] Cons.IH [OF s2] show ?case
    by (simp add: keys_of_append extend_keys_append)
qed

lemma walk_loop_keys:
  "walk_loop b d sh ts st = Inr st' \<Longrightarrow>
     map fst (project_stats st') =
       extend_keys (map fst (project_stats st))
         (keys_of b (included b d (concat (map triple_files ts))))"
proof (induction ts arbitrary: st)
  case Nil
  then show ?case by (simp add: included_def keys_of_def map_filter_def extend_keys_Nil)
next
  case (Cons t ts)
  obtain root ds fs where t: "t = (root, ds, fs)" by (cases t)
  define st0 where "st0 = (if sh
                 then st\<lparr>excluded_items := excluded_items st @
                           map (\<lambda>d. (DirItem, joinpath root d))
                             (filter (\<lambda>d. d \<notin> set (filter keep_dir ds)) ds)\<rparr>
                 else st)"
  have p0: "project_stats st0 = project_stats st" by (simp add: st0_def)
  from Cons.prems t obtain st1 where s1: "files_loop b d sh root fs st0 = Inr st1"
    and s2: "walk_loop b d sh ts st1 = Inr st'"
    by (auto simp: st0_def Let_def split: sum.splits)
  from files_loop_keys [OF s1] Cons.IH [OF s2] p0 show ?case
    by (simp add: t triple_files_def included_append keys_of_append extend_keys_append)
qed

lemma count_project_lines_keys:
  assumes "count_project_lines b dv sh es = Inr st"
  shows "map fst (project_stats st) =
           first_seen (keys_of b (included b (case dv of None \<Rightarrow> b | Some d \<Rightarrow> d)
                                    (walked_files b es)))"
  using walk_loop_keys [of b "case dv of None \<Rightarrow> b | Some d \<Rightarrow> d" sh "os_walk b es" init_state st]
    assms
  by (simp add: count_project_lines_def walked_files_eq first_seen_def init_state_def Let_def)

section \<open>Properties of the command line\<close>

text \<open>
  C8, as stated, fails: \<open>config.json\<close> is read before the argument is looked at, so
  with a configuration that cannot be read the script exits with code 1 although the
  argument names a regular file, and prints no line count.
\<close>

theorem main_config_failure_counterexample:
  "notes_fs (target_base ''/'' ''/data/notes.txt'') = Some (RegularFile (readable 3)) \<and>
   main (Path ''/'' [''repo'', ''config.json'']) (LoadFailed ''missing'') [''/data/notes.txt''] ''/''
     notes_fs
   = Exit 1 [''Error: Could not read devRoot from config.json: missing'',
             ''Expected config at: /repo/config.json'']"
  by (simp add: main_def str_path_def notes_fs_def target_base_def startswith_def
      parse_path_def splitroot_def)

text \<open>
  C8, amended: when \<open>devRoot\<close> has been read from the configuration and the first
  argument that is left once \<open>--show-exclusions\<close> is removed is a non-empty path naming
  a regular file, the script prints a heading with that path and then the line count of
  that file, as \<open>count_lines_in_file\<close> gives it, and exits with code 0;
  \<open>count_project_lines\<close> is not called.
\<close>

theorem main_single_file:
  assumes "config = Loaded d"
    and "path_args argv = t # rest"
    and "t \<noteq> []"
    and "fs (target_base cwd t) = Some (RegularFile fd)"
  shows "main config_path config argv cwd fs =
           Exit 0 [[CHR 0x0A] @ ''Counting single file: '' @ str_path (target_base cwd t),
                   ''Lines: '' @ format_commas (count_lines_in_file fd)]"
  using assms by (simp add: main_def Let_def)

lemma format_commas_1234: "format_commas 1234 = ''1,234''"
  by code_simp

lemma target_base_notes:
  "target_base ''/home/u'' ''notes.txt'' = Path ''/'' [''home'', ''u'', ''notes.txt'']"
  by (simp add: target_base_def startswith_def joinpath_def parse_path_def splitroot_def)

theorem main_single_file_witness:
  "main (Path ''/'' [''repo'', ''config.json'']) (Loaded ''/dev'')
     [''--show-exclusions'', ''notes.txt''] ''/home/u''
     (\<lambda>p. if p = Path ''/'' [''home'', ''u'', ''notes.txt'']
          then Some (RegularFile (\<lambda>e. Lines 1234)) else None)
   = Exit 0 [[CHR 0x0A] @ ''Counting single file: /home/u/notes.txt'', ''Lines: 1,234'']"
proof -
  have a: "path_args [''--show-exclusions'', ''notes.txt''] = ''notes.txt'' # []"
    by (simp add: path_args_def)
  have n: "''notes.txt'' \<noteq> []" by simp
  have c: "count_lines_in_file (\<lambda>e. Lines 1234) = 1234"
    by (simp add: count_lines_in_file_def)
  show ?thesis
    using a n main_single_file [where config = "Loaded ''/dev''" and d = "''/dev''"
        and argv = "[''--show-exclusions'', ''notes.txt'']" and t = "''notes.txt''"
        and rest = "[]" and cwd = "''/home/u''" and fd = "\<lambda>e. Lines 1234"
        and config_path = "Path ''/'' [''repo'', ''config.json'']"
        and fs = "\<lambda>p. if p = Path ''/'' [''home'', ''u'', ''notes.txt'']
                      then Some (RegularFile (\<lambda>e. Lines 1234)) else None"]
    by (simp add: target_base_notes c format_commas_1234 str_path_def)
qed

section \<open>Counting the files of the walk\<close>

lemma try_encodings_fail:
  "\<forall>e \<in> set es. \<forall>n. fd e \<noteq> Lines n \<Longrightarrow> try_encodings fd es = 0"
  by (induction es) (auto split: read_outcome.split)

text \<open>
  C5: a file that no attempted encoding reads (every attempt raises) has
  \<open>count_lines_in_file\<close> 0; when the exclusion rules let it through, the loop body
  returns without an error, so the traversal goes on, and the file is counted as
  included with no lines: the file counter of its project and \<open>total_files\<close> grow by
  one, the line counters and \<open>excluded_files\<close> stay.
\<close>

theorem unreadable_file_counted_with_zero_lines:
  assumes "\<forall>e \<in> set [UTF8, Latin1, CP1252]. \<forall>n. fd e \<noteq> Lines n"
    and "should_exclude file_path base_path dev_root = Inr False"
  shows "count_lines_in_file fd = 0 \<and>
         (\<exists>st' k. process_file base_path dev_root show_exclusions file_path fd st = Inr st' \<and>
            file_key base_path file_path = Some k \<and>
            files_of st' k = files_of st k + 1 \<and>
            lines_of st' k = lines_of st k \<and>
            total_files st' = total_files st + 1 \<and>
            total_lines st' = total_lines st \<and>
            excluded_files st' = excluded_files st)"
proof -
  have z: "count_lines_in_file fd = 0"
    using assms(1) try_encodings_fail [of "[UTF8, Latin1, CP1252]" fd]
    by (simp add: count_lines_in_file_def)
  from assms(2) obtain rel where rel: "relative_to file_path base_path = Inr rel"
    by (cases "relative_to file_path base_path") (auto simp: should_exclude_def)
  then have key: "file_key base_path file_path = Some (stats_key rel)"
    by (simp add: file_key_def)
  from process_file_included [OF assms(2), of show_exclusions fd st]
  obtain st' where p: "process_file base_path dev_root show_exclusions file_path fd st = Inr st'"
    and t: "tallied base_path dev_root [(file_path, fd)] st st'" by blast
  from t assms(2) key z have
    "files_of st' (stats_key rel) = files_of st (stats_key rel) + 1"
    "lines_of st' (stats_key rel) = lines_of st (stats_key rel)"
    "total_files st' = total_files st + 1"
    "total_lines st' = total_lines st"
    "excluded_files st' = excluded_files st"
    by (simp_all add: tallied_def included_def excluded_def under_key_def line_total_def)
  with z p key show ?thesis by auto
qed

lemma example_tree_valid: "valid_tree example_tree"
  by (simp add: example_tree_def valid_name_def)

lemma example_file_included:
  "should_exclude (Path ''/'' [''dev'', ''projA'', ''a.txt'']) (Path ''/'' [''dev''])
     (Path ''/'' [''dev'']) = Inr False"
  by (simp add: should_exclude_def eval_path)

theorem unreadable_file_counted_with_zero_lines_witness:
  "count_lines_in_file undecodable = 0 \<and>
   (\<exists>st' k. process_file (Path ''/'' [''dev'']) (Path ''/'' [''dev'']) False
               (Path ''/'' [''dev'', ''projA'', ''a.txt'']) undecodable init_state
             = Inr st' \<and>
      file_key (Path ''/'' [''dev'']) (Path ''/'' [''dev'', ''projA'', ''a.txt'']) = Some k \<and>
      files_of st' k = files_of init_state k + 1 \<and>
      lines_of st' k = lines_of init_state k \<and>
      total_files st' = total_files init_state + 1 \<and>
      total_lines st' = total_lines init_state \<and>
      excluded_files st' = excluded_files init_state)"
proof -
  have h: "\<forall>e \<in> set [UTF8, Latin1, CP1252]. \<forall>n. undecodable e \<noteq> Lines n"
    by (simp add: undecodable_def)
  show ?thesis
    by (rule unreadable_file_counted_with_zero_lines [OF h example_file_included])
qed

lemma example_walk:
  "walked_files (Path ''/'' [''dev'']) example_tree =
     [(Path ''/'' [''dev'', ''projA'', ''a.txt''], readable 3),
      (Path ''/'' [''dev'', ''projA'', ''b.log''], readable 10),
      (Path ''/'' [''dev'', ''projB'', ''c.txt''], readable 5)]"
  by (simp add: walked_files_def example_tree_def os_walk.simps keep_dir_def startswith_def
      joinpath_valid valid_name_def)

lemma example_included:
  "included (Path ''/'' [''dev'']) (Path ''/'' [''dev'']) (walked_files (Path ''/'' [''dev'']) example_tree) =
     [(Path ''/'' [''dev'', ''projA'', ''a.txt''], readable 3),
      (Path ''/'' [''dev'', ''projB'', ''c.txt''], readable 5)]"
  by (simp add: example_walk included_def should_exclude_def eval_path)

lemma example_tally:
  "length (included (Path ''/'' [''dev'']) (Path ''/'' [''dev''])
             (walked_files (Path ''/'' [''dev'']) example_tree)) = 2"
  "line_total (included (Path ''/'' [''dev'']) (Path ''/'' [''dev''])
             (walked_files (Path ''/'' [''dev'']) example_tree)) = 8"
  "length (under_key (Path ''/'' [''dev'']) ''projA''
     (included (Path ''/'' [''dev'']) (Path ''/'' [''dev''])
             (walked_files (Path ''/'' [''dev'']) example_tree))) = 1"
  "line_total (under_key (Path ''/'' [''dev'']) ''projA''
     (included (Path ''/'' [''dev'']) (Path ''/'' [''dev''])
             (walked_files (Path ''/'' [''dev'']) example_tree))) = 3"
  "length (under_key (Path ''/'' [''dev'']) ''projB''
     (included (Path ''/'' [''dev'']) (Path ''/'' [''dev''])
             (walked_files (Path ''/'' [''dev'']) example_tree))) = 1"
  "line_total (under_key (Path ''/'' [''dev'']) ''projB''
     (included (Path ''/'' [''dev'']) (Path ''/'' [''dev''])
             (walked_files (Path ''/'' [''dev'']) example_tree))) = 5"
  by (simp_all add: example_included under_key_def line_total_def file_key_def relative_to_def
      stats_key_def path_parts_def count_lines_in_file_def readable_def)

text \<open>
  C6: \<open>should_exclude\<close> is a function of its three arguments, and for no file of
  the walk over a valid tree does it raise: it returns a result, and when no global
  exclusion applies (no \<open>log\<close> in the path string, suffix neither \<open>.log\<close> nor
  \<open>.vsix\<close>) and the project of the file, if it has one, has no entry in the rule
  table, the result is to include the file. The same holds for every path below
  \<open>base_path\<close>.
\<close>

theorem should_exclude_never_raises:
  assumes "valid_tree entries"
  shows "(\<forall>p \<in> set (walked_files base_path entries).
            \<exists>rel_path r. relative_to (fst p) base_path = Inr rel_path \<and>
              should_exclude (fst p) base_path dev_root = Inr r \<and>
              (\<not> str_in ''log'' (lower (str_path (fst p))) \<and>
               path_suffix (fst p) \<noteq> ''.log'' \<and> path_suffix (fst p) \<noteq> ''.vsix'' \<and>
               (\<forall>pr. rule_project (fst p) dev_root (path_parts rel_path) = Some pr
                      \<longrightarrow> pr \<notin> set rule_table)
               \<longrightarrow> r = False)) \<and>
         (\<forall>file_path rel_path.
            relative_to file_path base_path = Inr rel_path \<longrightarrow>
            (\<exists>r. should_exclude file_path base_path dev_root = Inr r) \<and>
            (\<not> str_in ''log'' (lower (str_path file_path)) \<and>
             path_suffix file_path \<noteq> ''.log'' \<and> path_suffix file_path \<noteq> ''.vsix'' \<and>
             (\<forall>pr. rule_project file_path dev_root (path_parts rel_path) = Some pr
                    \<longrightarrow> pr \<notin> set rule_table)
             \<longrightarrow> should_exclude file_path base_path dev_root = Inr False))"
proof (intro conjI ballI allI impI)
  fix p assume "p \<in> set (walked_files base_path entries)"
  with walked_files_relative [OF assms, of base_path]
  have "is_relative_to (fst p) base_path" by blast
  then obtain rel where rel: "relative_to (fst p) base_path = Inr rel"
    by (simp add: relative_to_def is_relative_to_def)
  from should_exclude_returns [OF rel, of dev_root]
  obtain r where r: "should_exclude (fst p) base_path dev_root = Inr r" by blast
  have "r = False" if "\<not> str_in ''log'' (lower (str_path (fst p))) \<and>
               path_suffix (fst p) \<noteq> ''.log'' \<and> path_suffix (fst p) \<noteq> ''.vsix'' \<and>
               (\<forall>pr. rule_project (fst p) dev_root (path_parts rel) = Some pr
                      \<longrightarrow> pr \<notin> set rule_table)"
    using should_exclude_default [OF rel, of dev_root] that r by simp
  with rel r show "\<exists>rel_path r. relative_to (fst p) base_path = Inr rel_path \<and>
              should_exclude (fst p) base_path dev_root = Inr r \<and>
              (\<not> str_in ''log'' (lower (str_path (fst p))) \<and>
               path_suffix (fst p) \<noteq> ''.log'' \<and> path_suffix (fst p) \<noteq> ''.vsix'' \<and>
               (\<forall>pr. rule_project (fst p) dev_root (path_parts rel_path) = Some pr
                      \<longrightarrow> pr \<notin> set rule_table)
               \<longrightarrow> r = False)" by blast
next
  fix file_path rel_path
  assume "relative_to file_path base_path = Inr rel_path"
  then show "\<exists>r. should_exclude file_path base_path dev_root = Inr r"
    by (rule should_exclude_returns)
next
  fix file_path rel_path
  assume rel: "relative_to file_path base_path = Inr rel_path"
    and "\<not> str_in ''log'' (lower (str_path file_path)) \<and>
             path_suffix file_path \<noteq> ''.log'' \<and> path_suffix file_path \<noteq> ''.vsix'' \<and>
             (\<forall>pr. rule_project file_path dev_root (path_parts rel_path) = Some pr
                    \<longrightarrow> pr \<notin> set rule_table)"
  then show "should_exclude file_path base_path dev_root = Inr False"
    using should_exclude_default [OF rel, of dev_root] by simp
qed

theorem should_exclude_never_raises_witness:
  "valid_tree example_tree \<and>
   (Path ''/'' [''dev'', ''projB'', ''c.txt''], readable 5)
      \<in> set (walked_files (Path ''/'' [''dev'']) example_tree) \<and>
   relative_to (Path ''/'' [''dev'', ''projB'', ''c.txt'']) (Path ''/'' [''dev''])
      = Inr (Path [] [''projB'', ''c.txt'']) \<and>
   should_exclude (Path ''/'' [''dev'', ''projB'', ''c.txt'']) (Path ''/'' [''dev''])
     (Path ''/'' [''dev'']) = Inr False"
proof -
  have m: "(Path ''/'' [''dev'', ''projB'', ''c.txt''], readable 5)
      \<in> set (walked_files (Path ''/'' [''dev'']) example_tree)"
    by (simp add: example_walk)
  have rl: "relative_to (Path ''/'' [''dev'', ''projB'', ''c.txt'']) (Path ''/'' [''dev''])
      = Inr (Path [] [''projB'', ''c.txt''])"
    by (simp add: relative_to_def)
  have g: "\<not> str_in ''log'' (lower (str_path (Path ''/'' [''dev'', ''projB'', ''c.txt''])))"
    by (simp add: str_in_def lower_def lower_char_def str_path_def sublist_code)
  have s: "path_suffix (Path ''/'' [''dev'', ''projB'', ''c.txt'']) \<noteq> ''.log''"
    "path_suffix (Path ''/'' [''dev'', ''projB'', ''c.txt'']) \<noteq> ''.vsix''"
    by (simp_all add: path_suffix_def path_name_def rfind_def)
  have t: "\<forall>pr. rule_project (Path ''/'' [''dev'', ''projB'', ''c.txt'']) (Path ''/'' [''dev''])
                 (path_parts (Path [] [''projB'', ''c.txt''])) = Some pr \<longrightarrow> pr \<notin> set rule_table"
    by (simp add: rule_project_def relative_to_def path_parts_def rule_table_def)
  note th = should_exclude_never_raises [OF example_tree_valid, of "Path ''/'' [''dev'']"
      "Path ''/'' [''dev'']"]
  from th [THEN conjunct1, rule_format, OF m]
  obtain rel r where a: "relative_to (Path ''/'' [''dev'', ''projB'', ''c.txt'']) (Path ''/'' [''dev''])
        = Inr rel"
    and b: "should_exclude (Path ''/'' [''dev'', ''projB'', ''c.txt'']) (Path ''/'' [''dev''])
        (Path ''/'' [''dev'']) = Inr r"
    and c: "\<not> str_in ''log'' (lower (str_path (Path ''/'' [''dev'', ''projB'', ''c.txt'']))) \<and>
            path_suffix (Path ''/'' [''dev'', ''projB'', ''c.txt'']) \<noteq> ''.log'' \<and>
            path_suffix (Path ''/'' [''dev'', ''projB'', ''c.txt'']) \<noteq> ''.vsix'' \<and>
            (\<forall>pr. rule_project (Path ''/'' [''dev'', ''projB'', ''c.txt'']) (Path ''/'' [''dev''])
                    (path_parts rel) = Some pr \<longrightarrow> pr \<notin> set rule_table)
            \<longrightarrow> r = False"
    by auto
  from a rl have "rel = Path [] [''projB'', ''c.txt'']" by simp
  with c g s t have "r = False" by simp
  with b have e: "should_exclude (Path ''/'' [''dev'', ''projB'', ''c.txt'']) (Path ''/'' [''dev''])
        (Path ''/'' [''dev'']) = Inr False" by simp
  show ?thesis
    by (intro conjI example_tree_valid m rl e)
qed

text \<open>
  C1: on a valid tree the traversal ends without an error, and in its final state
  the file counters of the projects sum to \<open>total_files\<close> and their line counters to
  \<open>total_lines\<close>. The project table has every key once, and the counters are the
  tallies of the included files of the walk: \<open>total_files\<close> is their number and
  \<open>total_lines\<close> the sum of their line counts, and under every key the table holds
  the number and the line counts of the included files of that key, each walked file
  having one key. In the loop body an included file adds one file and its line count
  to the counters of this one key and to the totals, and leaves every other key as it
  is.
\<close>

theorem counters_sum_to_totals:
  assumes "valid_tree entries"
  shows "(\<exists>st. count_project_lines base_path dev_root show_exclusions entries = Inr st \<and>
            sum_files st = total_files st \<and> sum_lines st = total_lines st \<and>
            distinct (map fst (project_stats st)) \<and>
            total_files st =
              length (included base_path (case dev_root of None \<Rightarrow> base_path | Some d \<Rightarrow> d)
                        (walked_files base_path entries)) \<and>
            total_lines st =
              line_total (included base_path (case dev_root of None \<Rightarrow> base_path | Some d \<Rightarrow> d)
                            (walked_files base_path entries)) \<and>
            (\<forall>k. files_of st k =
                   length (under_key base_path k
                     (included base_path (case dev_root of None \<Rightarrow> base_path | Some d \<Rightarrow> d)
                        (walked_files base_path entries)))) \<and>
            (\<forall>k. lines_of st k =
                   line_total (under_key base_path k
                     (included base_path (case dev_root of None \<Rightarrow> base_path | Some d \<Rightarrow> d)
                        (walked_files base_path entries)))) \<and>
            (\<forall>p \<in> set (walked_files base_path entries).
                   \<exists>k. file_key base_path (fst p) = Some k)) \<and>
         (\<forall>file_path fd st d.
            should_exclude file_path base_path d = Inr False \<longrightarrow>
            (\<exists>st' k. process_file base_path d show_exclusions file_path fd st = Inr st' \<and>
               file_key base_path file_path = Some k \<and>
               files_of st' k = files_of st k + 1 \<and>
               lines_of st' k = lines_of st k + count_lines_in_file fd \<and>
               (\<forall>k'. k' \<noteq> k \<longrightarrow> files_of st' k' = files_of st k' \<and>
                                 lines_of st' k' = lines_of st k') \<and>
               total_files st' = total_files st + 1 \<and>
               total_lines st' = total_lines st + count_lines_in_file fd))"
proof (intro conjI allI impI)
  define d0 where "d0 = (case dev_root of None \<Rightarrow> base_path | Some d \<Rightarrow> d)"
  from count_project_lines_tallied [OF assms, of base_path dev_root show_exclusions]
  obtain st where c: "count_project_lines base_path dev_root show_exclusions entries = Inr st"
    and t: "tallied base_path d0 (walked_files base_path entries) init_state st"
    by (auto simp: d0_def)
  have i: "sum_files init_state = 0" "sum_lines init_state = 0"
    "total_files init_state = 0" "total_lines init_state = 0"
    "\<And>k. files_of init_state k = 0" "\<And>k. lines_of init_state k = 0"
    by (simp_all add: init_state_def sum_files_def sum_lines_def files_of_def lines_of_def)
  from t i have s: "sum_files st = total_files st" "sum_lines st = total_lines st"
    "total_files st = length (included base_path d0 (walked_files base_path entries))"
    "total_lines st = line_total (included base_path d0 (walked_files base_path entries))"
    "\<forall>k. files_of st k =
        length (under_key base_path k (included base_path d0 (walked_files base_path entries)))"
    "\<forall>k. lines_of st k =
        line_total (under_key base_path k (included base_path d0 (walked_files base_path entries)))"
    by (simp_all add: tallied_def)
  from count_project_lines_keys [OF c]
  have "map fst (project_stats st) =
          first_seen (keys_of base_path (included base_path d0 (walked_files base_path entries)))"
    by (simp add: d0_def)
  then have d: "distinct (map fst (project_stats st))"
    by (simp add: first_seen_def distinct_extend_keys)
  have "\<forall>p \<in> set (walked_files base_path entries). is_relative_to (fst p) base_path"
    by (rule walked_files_relative [OF assms])
  then have k: "\<forall>p \<in> set (walked_files base_path entries). \<exists>k. file_key base_path (fst p) = Some k"
    by (simp add: file_key_def relative_to_def is_relative_to_def)
  from c s d k show "\<exists>st. count_project_lines base_path dev_root show_exclusions entries = Inr st \<and>
            sum_files st = total_files st \<and> sum_lines st = total_lines st \<and>
            distinct (map fst (project_stats st)) \<and>
            total_files st =
              length (included base_path (case dev_root of None \<Rightarrow> base_path | Some d \<Rightarrow> d)
                        (walked_files base_path entries)) \<and>
            total_lines st =
              line_total (included base_path (case dev_root of None \<Rightarrow> base_path | Some d \<Rightarrow> d)
                            (walked_files base_path entries)) \<and>
            (\<forall>k. files_of st k =
                   length (under_key base_path k
                     (included base_path (case dev_root of None \<Rightarrow> base_path | Some d \<Rightarrow> d)
                        (walked_files base_path entries)))) \<and>
            (\<forall>k. lines_of st k =
                   line_total (under_key base_path k
                     (included base_path (case dev_root of None \<Rightarrow> base_path | Some d \<Rightarrow> d)
                        (walked_files base_path entries)))) \<and>
            (\<forall>p \<in> set (walked_files base_path entries).
                   \<exists>k. file_key base_path (fst p) = Some k)"
    unfolding d0_def [symmetric] by (intro exI [of _ st] conjI)
next
  fix file_path fd st d
  assume inc: "should_exclude file_path base_path d = Inr False"
  then obtain rel where rel: "relative_to file_path base_path = Inr rel"
    by (cases "relative_to file_path base_path") (auto simp: should_exclude_def)
  then have key: "file_key base_path file_path = Some (stats_key rel)"
    by (simp add: file_key_def)
  from process_file_included [OF inc, of show_exclusions fd st]
  obtain st' where p: "process_file base_path d show_exclusions file_path fd st = Inr st'"
    and t: "tallied base_path d [(file_path, fd)] st st'" by blast
  from t inc key have
    "files_of st' (stats_key rel) = files_of st (stats_key rel) + 1"
    "lines_of st' (stats_key rel) = lines_of st (stats_key rel) + count_lines_in_file fd"
    "\<forall>k'. k' \<noteq> stats_key rel \<longrightarrow> files_of st' k' = files_of st k' \<and>
                                 lines_of st' k' = lines_of st k'"
    "total_files st' = total_files st + 1"
    "total_lines st' = total_lines st + count_lines_in_file fd"
    by (simp_all add: tallied_def included_def excluded_def under_key_def line_total_def)
  with p key show "\<exists>st' k. process_file base_path d show_exclusions file_path fd st = Inr st' \<and>
               file_key base_path file_path = Some k \<and>
               files_of st' k = files_of st k + 1 \<and>
               lines_of st' k = lines_of st k + count_lines_in_file fd \<and>
               (\<forall>k'. k' \<noteq> k \<longrightarrow> files_of st' k' = files_of st k' \<and>
                                 lines_of st' k' = lines_of st k') \<and>
               total_files st' = total_files st + 1 \<and>
               total_lines st' = total_lines st + count_lines_in_file fd" by blast
qed

theorem counters_sum_to_totals_witness:
  "valid_tree example_tree \<and>
   (\<exists>st. count_project_lines (Path ''/'' [''dev'']) None False example_tree = Inr st \<and>
         sum_files st = total_files st \<and> sum_lines st = total_lines st \<and>
         total_files st = 2 \<and> total_lines st = 8 \<and>
         files_of st ''projA'' = 1 \<and> lines_of st ''projA'' = 3 \<and>
         files_of st ''projB'' = 1 \<and> lines_of st ''projB'' = 5) \<and>
   (\<exists>st' k. process_file (Path ''/'' [''dev'']) (Path ''/'' [''dev'']) False
               (Path ''/'' [''dev'', ''projA'', ''a.txt'']) (readable 3) init_state = Inr st' \<and>
      file_key (Path ''/'' [''dev'']) (Path ''/'' [''dev'', ''projA'', ''a.txt'']) = Some k \<and>
      files_of st' k = files_of init_state k + 1 \<and>
      lines_of st' k = lines_of init_state k + count_lines_in_file (readable 3))"
proof -
  note th = counters_sum_to_totals [OF example_tree_valid, of "Path ''/'' [''dev'']" None False]
  from th [THEN conjunct1]
  obtain st where c: "count_project_lines (Path ''/'' [''dev'']) None False example_tree = Inr st"
    and s: "sum_files st = total_files st" "sum_lines st = total_lines st"
    and n: "total_files st = 2" "total_lines st = 8"
    and f: "\<forall>k. files_of st k =
                   length (under_key (Path ''/'' [''dev'']) k
                     (included (Path ''/'' [''dev'']) (Path ''/'' [''dev''])
                        (walked_files (Path ''/'' [''dev'']) example_tree)))"
    and l: "\<forall>k. lines_of st k =
                   line_total (under_key (Path ''/'' [''dev'']) k
                     (included (Path ''/'' [''dev'']) (Path ''/'' [''dev''])
                        (walked_files (Path ''/'' [''dev'']) example_tree)))"
    by (auto simp: example_tally)
  from f l have k: "files_of st ''projA'' = 1" "lines_of st ''projA'' = 3"
    "files_of st ''projB'' = 1" "lines_of st ''projB'' = 5"
    by (simp_all add: example_tally)
  from th [THEN conjunct2, rule_format, OF example_file_included, of "readable 3" init_state]
  obtain st' k' where p: "process_file (Path ''/'' [''dev'']) (Path ''/'' [''dev'']) False
               (Path ''/'' [''dev'', ''projA'', ''a.txt'']) (readable 3) init_state = Inr st'"
    and q: "file_key (Path ''/'' [''dev'']) (Path ''/'' [''dev'', ''projA'', ''a.txt'']) = Some k'"
      "files_of st' k' = files_of init_state k' + 1"
      "lines_of st' k' = lines_of init_state k' + count_lines_in_file (readable 3)"
    by (elim exE conjE)
  show ?thesis
    by (intro conjI exI [of _ st] exI [of _ st'] exI [of _ k'] example_tree_valid c s n k p q)
qed

lemma included_excluded_length:
  assumes "\<forall>p \<in> set ps. is_relative_to (fst p) b"
  shows "length (included b d ps) + length (excluded b d ps) = length ps"
  using assms
proof (induction ps)
  case Nil
  then show ?case by (simp add: included_def excluded_def)
next
  case (Cons p ps)
  then have "relative_to (fst p) b = Inr (Path [] (drop (length (tail b)) (tail (fst p))))"
    by (simp add: relative_to_def is_relative_to_def)
  from should_exclude_returns [OF this, of d]
  obtain r where "should_exclude (fst p) b d = Inr r" by blast
  with Cons show ?case by (cases r) (simp_all add: included_def excluded_def)
qed

text \<open>
  C4: on a valid tree the traversal ends without an error and every file the walk
  meets is classified once: \<open>total_files\<close> is the number of walked files that
  \<open>should_exclude\<close> includes, \<open>excluded_files\<close> the number it excludes, the two add
  up to the number of walked files, every walked file has one key, and the file
  counter of a project is the number of included files with that key. (Files below a
  directory the walk prunes are not met.)
\<close>

theorem walked_files_classified_once:
  assumes "valid_tree entries"
  shows "\<exists>st. count_project_lines base_path dev_root show_exclusions entries = Inr st \<and>
           total_files st =
             length (included base_path (case dev_root of None \<Rightarrow> base_path | Some d \<Rightarrow> d)
                       (walked_files base_path entries)) \<and>
           excluded_files st =
             length (excluded base_path (case dev_root of None \<Rightarrow> base_path | Some d \<Rightarrow> d)
                       (walked_files base_path entries)) \<and>
           total_files st + excluded_files st = length (walked_files base_path entries) \<and>
           (\<forall>k. files_of st k =
              length (under_key base_path k
                (included base_path (case dev_root of None \<Rightarrow> base_path | Some d \<Rightarrow> d)
                   (walked_files base_path entries)))) \<and>
           (\<forall>p \<in> set (walked_files base_path entries). \<exists>k. file_key base_path (fst p) = Some k)"
proof -
  define d0 where "d0 = (case dev_root of None \<Rightarrow> base_path | Some d \<Rightarrow> d)"
  from count_project_lines_tallied [OF assms, of base_path dev_root show_exclusions]
  obtain st where c: "count_project_lines base_path dev_root show_exclusions entries = Inr st"
    and t: "tallied base_path d0 (walked_files base_path entries) init_state st"
    by (auto simp: d0_def)
  have i: "total_files init_state = 0" "excluded_files init_state = 0"
    "\<And>k. files_of init_state k = 0"
    by (simp_all add: init_state_def files_of_def)
  have r: "\<forall>p \<in> set (walked_files base_path entries). is_relative_to (fst p) base_path"
    by (rule walked_files_relative [OF assms])
  then have k: "\<forall>p \<in> set (walked_files base_path entries). \<exists>k. file_key base_path (fst p) = Some k"
    by (simp add: file_key_def relative_to_def is_relative_to_def)
  from t i included_excluded_length [OF r, of d0] c k show ?thesis
    unfolding d0_def [symmetric] by (simp add: tallied_def)
qed

theorem walked_files_classified_once_witness:
  "valid_tree example_tree \<and>
   (\<exists>st. count_project_lines (Path ''/'' [''dev'']) None False example_tree = Inr st \<and>
      total_files st + excluded_files st =
        length (walked_files (Path ''/'' [''dev'']) example_tree))"
  using walked_files_classified_once [OF example_tree_valid, of "Path ''/'' [''dev'']" None False]
    example_tree_valid
  by blast

lemma join_with_append_prefix:
  "xs \<noteq> [] \<Longrightarrow> \<exists>t. join_with sep (xs @ ys) = join_with sep xs @ t"
proof (induction sep xs rule: join_with.induct)
  case (1 sep)
  then show ?case by simp
next
  case (2 sep x)
  then show ?case by (cases ys) auto
next
  case (3 sep x y ys')
  then show ?case by auto
qed

lemma str_path_prefix:
  assumes "is_relative_to f b" and "str_path b \<noteq> ''.''"
  shows "\<exists>t. str_path f = str_path b @ t"
proof -
  from assms(1) obtain r where a: "anchor f = anchor b" and r: "tail f = tail b @ r"
    by (auto simp: is_relative_to_def prefix_def)
  show ?thesis
  proof (cases "tail b = []")
    case True
    with assms(2) have "anchor b \<noteq> []" by (auto simp: str_path_def)
    with True a r show ?thesis by (simp add: str_path_def)
  next
    case False
    from join_with_append_prefix [OF False, of "''/''" r]
    obtain t where "join_with ''/'' (tail b @ r) = join_with ''/'' (tail b) @ t" by blast
    with False a r show ?thesis by (simp add: str_path_def)
  qed
qed

lemma log_inherited:
  assumes "is_relative_to f b" and "str_in ''log'' (lower (str_path b))"
  shows "str_in ''log'' (lower (str_path f))"
proof -
  have "\<not> str_in ''log'' (lower ''.'')"
    by (simp add: str_in_def lower_def lower_char_def sublist_code)
  with assms(2) have "str_path b \<noteq> ''.''" by auto
  from str_path_prefix [OF assms(1) this]
  obtain t where "str_path f = str_path b @ t" by blast
  then have "lower (str_path f) = lower (str_path b) @ lower t"
    by (simp add: lower_def)
  moreover from assms(2) obtain ps ss where "lower (str_path b) = ps @ ''log'' @ ss"
    by (auto simp: str_in_def sublist_def)
  ultimately have "lower (str_path f) = ps @ ''log'' @ (ss @ lower t)" by simp
  then show ?thesis unfolding str_in_def sublist_def by blast
qed

text \<open>
  C9: the \<open>log\<close> test reads the whole path string of the file, the part above the
  scanned root included. When the path string of \<open>base_path\<close> contains \<open>log\<close> in any
  letter case, both versions of \<open>should_exclude\<close> exclude every file of the walk, and
  the scan counts no file: the totals are zero, the project table is empty, and
  \<open>excluded_files\<close> is the number of files met.
\<close>

theorem log_in_base_path_excludes_all:
  assumes "str_in ''log'' (lower (str_path base_path))" and "valid_tree entries"
  shows "(\<forall>p \<in> set (walked_files base_path entries).
            should_exclude (fst p) base_path d = Inr True \<and>
            should_exclude_top (fst p) base_path d = Inr True) \<and>
         (\<exists>st. count_project_lines base_path dev_root show_exclusions entries = Inr st \<and>
               total_files st = 0 \<and> total_lines st = 0 \<and> project_stats st = [] \<and>
               excluded_files st = length (walked_files base_path entries))"
proof -
  have r: "\<forall>p \<in> set (walked_files base_path entries). is_relative_to (fst p) base_path"
    by (rule walked_files_relative [OF assms(2)])
  have ex: "should_exclude (fst p) base_path d' = Inr True \<and>
            should_exclude_top (fst p) base_path d' = Inr True"
    if "p \<in> set (walked_files base_path entries)" for p d'
  proof -
    from r that have rel: "is_relative_to (fst p) base_path" by blast
    from log_inherited [OF rel assms(1)]
    have "str_in ''log'' (lower (str_path (fst p)))" .
    from log_path_excluded [OF rel this] show ?thesis .
  qed
  define d0 where "d0 = (case dev_root of None \<Rightarrow> base_path | Some d \<Rightarrow> d)"
  from count_project_lines_tallied [OF assms(2), of base_path dev_root show_exclusions]
  obtain st where c: "count_project_lines base_path dev_root show_exclusions entries = Inr st"
    and t: "tallied base_path d0 (walked_files base_path entries) init_state st"
    by (auto simp: d0_def)
  have inc: "included base_path d0 (walked_files base_path entries) = []"
    using ex [of _ d0] by (auto simp: included_def filter_empty_conv)
  have exc: "excluded base_path d0 (walked_files base_path entries) = walked_files base_path entries"
    using ex [of _ d0] by (auto simp: excluded_def)
  from t inc exc have "total_files st = 0" "total_lines st = 0" "project_stats st = []"
    "excluded_files st = length (walked_files base_path entries)"
    by (simp_all add: tallied_def init_state_def line_total_def)
  with c ex show ?thesis by blast
qed

theorem log_in_base_path_excludes_all_witness:
  "str_in ''log'' (lower (str_path (Path ''/'' [''home'', ''blog'']))) \<and>
   valid_tree example_tree \<and>
   (\<exists>st. count_project_lines (Path ''/'' [''home'', ''blog'']) None False example_tree = Inr st \<and>
         total_files st = 0 \<and> total_lines st = 0 \<and> project_stats st = [] \<and>
         excluded_files st = length (walked_files (Path ''/'' [''home'', ''blog'']) example_tree))"
proof -
  have h: "str_in ''log'' (lower (str_path (Path ''/'' [''home'', ''blog''])))"
    by (simp add: str_in_def lower_def lower_char_def str_path_def sublist_code)
  show ?thesis
    using log_in_base_path_excludes_all [OF h example_tree_valid, of "Path ''/'' [''home'', ''blog'']"
        None False] h example_tree_valid
    by blast
qed

section \<open>The order of the report\<close>

text \<open>
  C3, as stated, fails: the rows are sorted by line count alone, and rows with equal
  line counts keep the order in which the projects entered the table, which is the
  order in which the operating system listed them. Listing the same two one-line
  projects in the other order swaps the two rows, and \<open>b\<close> can come before \<open>a\<close>.
\<close>

theorem tie_order_counterexample:
  "row_names (count_project_lines (Path ''/'' [''dev'']) None False tie_tree_1) = Inr [''b'', ''a''] \<and>
   row_names (count_project_lines (Path ''/'' [''dev'']) None False tie_tree_2) = Inr [''a'', ''b'']"
  by code_simp

lemma sorted_reverse_desc:
  "sorted_wrt (\<lambda>a b. key a \<ge> key b) (sorted_reverse key xs)"
proof -
  have "sorted (map key (sort_key key (rev xs)))" by (rule sorted_sort_key)
  then have "sorted_wrt (\<lambda>a b. key a \<le> key b) (sort_key key (rev xs))"
    by (simp add: sorted_wrt_map)
  then show ?thesis
    by (simp add: sorted_reverse_def sorted_wrt_rev)
qed

lemma sorted_reverse_stable:
  "filter (\<lambda>x. key x = n) (sorted_reverse key xs) = filter (\<lambda>x. key x = n) xs"
proof -
  have "filter (\<lambda>x. key x = n) (sorted_reverse key xs)
          = rev (filter (\<lambda>x. key x = n) (sort_key key (rev xs)))"
    by (simp add: sorted_reverse_def rev_filter)
  also have "\<dots> = rev (filter (\<lambda>x. key x = n) (rev xs))"
    by (simp only: sort_key_stable)
  also have "\<dots> = filter (\<lambda>x. key x = n) xs"
    by (simp add: rev_filter)
  finally show ?thesis .
qed

lemma sorted_reverse_mset: "mset (sorted_reverse key xs) = mset xs"
  by (simp add: sorted_reverse_def)

text \<open>
  C3, amended: on a valid tree the traversal ends without an error; the project table
  then holds every project once, in the order in which the projects first occur among
  the included files of the walk, and the report rows are the entries of the table
  sorted by descending line count, rows with equal line counts in the order of the
  table. The order of ties follows the order in which the walk meets the projects; no
  other tie-break is defined.
\<close>

theorem report_rows_descending_ties_first_seen:
  assumes "valid_tree entries"
  shows "\<exists>st. count_project_lines base_path dev_root show_exclusions entries = Inr st \<and>
           map fst (project_stats st) =
             first_seen (keys_of base_path
               (included base_path (case dev_root of None \<Rightarrow> base_path | Some d \<Rightarrow> d)
                  (walked_files base_path entries))) \<and>
           distinct (map fst (project_stats st)) \<and>
           sorted_wrt (\<lambda>a b. lines (snd a) \<ge> lines (snd b)) (sorted_projects st) \<and>
           mset (sorted_projects st) = mset (project_stats st) \<and>
           (\<forall>n. filter (\<lambda>r. lines (snd r) = n) (sorted_projects st)
                   = filter (\<lambda>r. lines (snd r) = n) (project_stats st))"
proof -
  from count_project_lines_tallied [OF assms, of base_path dev_root show_exclusions]
  obtain st where c: "count_project_lines base_path dev_root show_exclusions entries = Inr st"
    by blast
  note k = count_project_lines_keys [OF c]
  then have d: "distinct (map fst (project_stats st))"
    by (simp add: first_seen_def distinct_extend_keys)
  have s: "sorted_wrt (\<lambda>a b. lines (snd a) \<ge> lines (snd b)) (sorted_projects st)"
    unfolding sorted_projects_def by (rule sorted_reverse_desc)
  have m: "mset (sorted_projects st) = mset (project_stats st)"
    unfolding sorted_projects_def by (rule sorted_reverse_mset)
  have f: "\<forall>n. filter (\<lambda>r. lines (snd r) = n) (sorted_projects st)
                   = filter (\<lambda>r. lines (snd r) = n) (project_stats st)"
    unfolding sorted_projects_def by (simp add: sorted_reverse_stable)
  show ?thesis
    by (intro exI [of _ st] conjI c k d s m f)
qed

lemma tie_tree_1_valid: "valid_tree tie_tree_1"
  by (simp add: tie_tree_1_def valid_name_def)

lemma tie_tree_1_count:
  "count_project_lines (Path ''/'' [''dev'']) None False tie_tree_1 =
     Inr \<lparr>project_stats = [(''b'', \<lparr>files = 1, lines = 1\<rparr>), (''a'', \<lparr>files = 1, lines = 1\<rparr>)],
          excluded_items = [], total_files = 2, total_lines = 2, excluded_files = 0\<rparr>"
  by code_simp

lemma tie_tree_1_first_seen:
  "first_seen (keys_of (Path ''/'' [''dev''])
     (included (Path ''/'' [''dev'']) (Path ''/'' [''dev''])
        (walked_files (Path ''/'' [''dev'']) tie_tree_1))) = [''b'', ''a'']"
  by code_simp

theorem report_rows_descending_ties_first_seen_witness:
  "valid_tree tie_tree_1 \<and>
   (\<exists>st. count_project_lines (Path ''/'' [''dev'']) None False tie_tree_1 = Inr st \<and>
         map fst (project_stats st) = [''b'', ''a''] \<and>
         map (\<lambda>r. lines (snd r)) (sorted_projects st) = [1, 1] \<and>
         map fst (sorted_projects st) = [''b'', ''a''])"
proof -
  from report_rows_descending_ties_first_seen [OF tie_tree_1_valid, of "Path ''/'' [''dev'']" None False]
  obtain st where c: "count_project_lines (Path ''/'' [''dev'']) None False tie_tree_1 = Inr st"
    and k: "map fst (project_stats st) =
             first_seen (keys_of (Path ''/'' [''dev''])
               (included (Path ''/'' [''dev'']) (Path ''/'' [''dev''])
                  (walked_files (Path ''/'' [''dev'']) tie_tree_1)))"
    and f: "\<forall>n. filter (\<lambda>r. lines (snd r) = n) (sorted_projects st)
                   = filter (\<lambda>r. lines (snd r) = n) (project_stats st)"
    by auto
  from k have k': "map fst (project_stats st) = [''b'', ''a'']"
    by (simp only: tie_tree_1_first_seen)
  from c have st: "project_stats st = [(''b'', \<lparr>files = 1, lines = 1\<rparr>), (''a'', \<lparr>files = 1, lines = 1\<rparr>)]"
    unfolding tie_tree_1_count by auto
  from f have "filter (\<lambda>r. lines (snd r) = 1) (sorted_projects st)
                 = filter (\<lambda>r. lines (snd r) = 1) (project_stats st)" by blast
  moreover have "filter (\<lambda>r. lines (snd r) = 1) (sorted_projects st) = sorted_projects st"
    by (simp add: sorted_projects_def sorted_reverse_def st)
  ultimately have sp: "sorted_projects st = project_stats st"
    by (simp add: st)
  from sp st have l: "map (\<lambda>r. lines (snd r)) (sorted_projects st) = [1, 1]"
    and n: "map fst (sorted_projects st) = [''b'', ''a'']" by simp_all
  show ?thesis
    by (intro conjI exI [of _ st] tie_tree_1_valid c k' l n)
qed

section \<open>The key of a file directly in the scanned directory\<close>

lemma in_project_join:
  "in_project b d r \<Longrightarrow> valid_name m \<Longrightarrow> in_project b d (joinpath r m)"
  by (auto simp: in_project_def joinpath_valid prefix_def)

lemma in_project_key: "in_project b d p \<Longrightarrow> file_key b p = Some d"
  by (auto simp: in_project_def file_key_def relative_to_def stats_key_def path_parts_def
      prefix_def)

lemma in_project_top: "valid_name n \<Longrightarrow> in_project b n (joinpath b n)"
  by (simp add: in_project_def joinpath_valid)

lemma os_walk_in_project:
  "valid_tree es \<longrightarrow> in_project b d root \<longrightarrow>
     (\<forall>t \<in> set (os_walk root es). in_project b d (fst t) \<and>
        (\<forall>p \<in> set (snd (snd t)). valid_name (fst p)))"
  "valid_tree es \<longrightarrow> in_project b d root \<longrightarrow>
     (\<forall>t \<in> set (walk_dirs root es). in_project b d (fst t) \<and>
        (\<forall>p \<in> set (snd (snd t)). valid_name (fst p)))"
proof (induction root es and root es rule: os_walk_walk_dirs.induct)
  case (1 root es)
  then show ?case using valid_file_entries [of es] by (auto simp: os_walk.simps)
next
  case (2 root)
  then show ?case by simp
next
  case (3 root n f es)
  then show ?case by simp
next
  case (4 root n sub es)
  then show ?case by (fastforce simp: in_project_join)
qed

lemma walk_dirs_keys:
  "valid_tree es \<Longrightarrow>
     \<forall>t \<in> set (walk_dirs b es). \<forall>p \<in> set (triple_files t).
        \<exists>dn \<in> set (dir_names es). file_key b (fst p) = Some dn"
proof (induction es rule: valid_tree.induct)
  case 1
  then show ?case by simp
next
  case (2 n f es)
  then show ?case by simp
next
  case (3 n sub es)
  have "\<forall>t \<in> set (os_walk (joinpath b n) sub). \<forall>p \<in> set (triple_files t).
          file_key b (fst p) = Some n"
    using os_walk_in_project(1) [of sub b n "joinpath b n"] 3(3)
    by (auto simp: triple_files_def in_project_top in_project_join in_project_key)
  with 3 show ?case by auto
qed

lemma walked_files_split:
  "walked_files b es =
     map (\<lambda>p. (joinpath b (fst p), snd p)) (file_entries es) @
     concat (map triple_files (walk_dirs b es))"
  by (simp add: walked_files_eq os_walk.simps triple_files_def)

lemma top_file_key: "valid_name m \<Longrightarrow> file_key b (joinpath b m) = Some m"
  by (simp add: in_project_key in_project_top)

lemma file_entries_names:
  "fst ` set (file_entries es) \<subseteq> entry_name ` set es"
  "set (dir_names es) \<subseteq> entry_name ` set es"
  by (induction es rule: valid_tree.induct) auto

lemma distinct_entries:
  "distinct (map entry_name es) \<Longrightarrow>
     distinct (map fst (file_entries es)) \<and>
     fst ` set (file_entries es) \<inter> set (dir_names es) = {}"
proof (induction es rule: valid_tree.induct)
  case 1
  then show ?case by simp
next
  case (2 n f es)
  then show ?case using file_entries_names [of es] by auto
next
  case (3 n sub es)
  then show ?case using file_entries_names [of es] by auto
qed

lemma file_in_entries: "File n fd \<in> set es \<Longrightarrow> (n, fd) \<in> set (file_entries es)"
  by (induction es rule: valid_tree.induct) auto

lemma filter_distinct_key:
  "distinct (map fst xs) \<Longrightarrow> (n, v) \<in> set xs \<Longrightarrow> filter (\<lambda>p. fst p = n) xs = [(n, v)]"
proof (induction xs)
  case Nil
  then show ?case by simp
next
  case (Cons x xs)
  show ?case
  proof (cases "x = (n, v)")
    case True
    with Cons.prems have "\<forall>p \<in> set xs. fst p \<noteq> n" by force
    then have "filter (\<lambda>p. fst p = n) xs = []" by (simp add: filter_empty_conv)
    with True show ?thesis by simp
  next
    case False
    with Cons.prems have in_xs: "(n, v) \<in> set xs" by auto
    then have "n \<in> fst ` set xs" by force
    with Cons.prems have "fst x \<noteq> n" by auto
    with Cons in_xs show ?thesis by simp
  qed
qed

lemma under_key_own_file:
  assumes v: "valid_tree es" and dist: "distinct (map entry_name es)"
    and f: "File n fd \<in> set es"
    and inc: "should_exclude (joinpath b n) b d = Inr False"
  shows "under_key b n (included b d (walked_files b es)) = [(joinpath b n, fd)]"
proof -
  let ?g = "\<lambda>p. (joinpath b (fst p), snd p)"
  let ?top = "map ?g (file_entries es)"
  let ?sub = "concat (map triple_files (walk_dirs b es))"
  from distinct_entries [OF dist] have d1: "distinct (map fst (file_entries es))"
    and d2: "fst ` set (file_entries es) \<inter> set (dir_names es) = {}" by auto
  from file_in_entries [OF f] have m: "(n, fd) \<in> set (file_entries es)" .
  with d2 have nd: "n \<notin> set (dir_names es)" by force
  have "\<forall>p \<in> set ?sub. file_key b (fst p) \<noteq> Some n"
    using walk_dirs_keys [OF v, of b] nd by fastforce
  then have s: "under_key b n (included b d ?sub) = []"
    by (auto simp: under_key_def included_def filter_empty_conv)
  have k: "\<forall>p \<in> set (file_entries es). file_key b (fst (?g p)) = Some (fst p)"
    using valid_file_entries [OF v] by (simp add: top_file_key)
  have "filter (\<lambda>q. file_key b (fst q) = Some n) ?top
          = map ?g (filter (\<lambda>p. file_key b (fst (?g p)) = Some n) (file_entries es))"
    by (simp add: filter_map comp_def)
  also have "filter (\<lambda>p. file_key b (fst (?g p)) = Some n) (file_entries es)
          = filter (\<lambda>p. fst p = n) (file_entries es)"
    using k by (intro filter_cong) auto
  also have "\<dots> = [(n, fd)]" by (rule filter_distinct_key [OF d1 m])
  finally have t0: "filter (\<lambda>q. file_key b (fst q) = Some n) ?top = [(joinpath b n, fd)]"
    by simp
  have "under_key b n (included b d ?top)
          = filter (\<lambda>p. should_exclude (fst p) b d = Inr False)
              (filter (\<lambda>q. file_key b (fst q) = Some n) ?top)"
    by (simp add: under_key_def included_def conj_commute)
  with t0 inc have t: "under_key b n (included b d ?top) = [(joinpath b n, fd)]" by simp
  have "under_key b n (included b d (walked_files b es))
          = under_key b n (included b d ?top) @ under_key b n (included b d ?sub)"
    by (simp add: walked_files_split under_key_def included_def)
  with s t show ?thesis by simp
qed

lemma walked_files_key_is_first_part:
  assumes "valid_tree es"
  shows "\<forall>p \<in> set (walked_files b es).
           \<exists>rel. relative_to (fst p) b = Inr rel \<and> length (path_parts rel) > 0 \<and>
                 file_key b (fst p) = Some (hd (path_parts rel))"
proof
  fix p assume "p \<in> set (walked_files b es)"
  then obtain t q where t: "t \<in> set (os_walk b es)" and q: "q \<in> set (snd (snd t))"
    and p: "p = (joinpath (fst t) (fst q), snd q)"
    by (auto simp: walked_files_eq triple_files_def)
  from os_walk_relative(1) [of es b b] assms t q
  have r: "is_relative_to (fst t) b" and vq: "valid_name (fst q)"
    by (auto simp: is_relative_to_refl)
  from r obtain r' where "tail (fst t) = tail b @ r'" and a: "anchor (fst t) = anchor b"
    by (auto simp: is_relative_to_def prefix_def)
  with vq p have "relative_to (fst p) b = Inr (Path [] (r' @ [fst q]))"
    by (simp add: joinpath_valid relative_to_def)
  then show "\<exists>rel. relative_to (fst p) b = Inr rel \<and> length (path_parts rel) > 0 \<and>
                 file_key b (fst p) = Some (hd (path_parts rel))"
    by (simp add: file_key_def stats_key_def path_parts_def)
qed

text \<open>
  C10: in a valid tree whose entries have distinct names, an included file that lies
  directly in \<open>base_path\<close> is recorded under its own name, and the entry of that name
  holds this file alone: one file, with its line count. For every file of the walk the
  path relative to \<open>base_path\<close> has a part, so the key is its first part and the
  \<open>'root'\<close> branch is never taken.
\<close>

theorem top_level_file_is_own_project:
  assumes "valid_tree entries" and "distinct (map entry_name entries)"
    and "File n fd \<in> set entries"
    and "should_exclude (joinpath base_path n) base_path
           (case dev_root of None \<Rightarrow> base_path | Some d \<Rightarrow> d) = Inr False"
  shows "file_key base_path (joinpath base_path n) = Some n \<and>
         (\<exists>st. count_project_lines base_path dev_root show_exclusions entries = Inr st \<and>
               files_of st n = 1 \<and> lines_of st n = count_lines_in_file fd) \<and>
         (\<forall>p \<in> set (walked_files base_path entries).
            \<exists>rel. relative_to (fst p) base_path = Inr rel \<and> length (path_parts rel) > 0 \<and>
                  file_key base_path (fst p) = Some (hd (path_parts rel)))"
proof -
  from file_in_entries [OF assms(3)] valid_file_entries [OF assms(1)]
  have vn: "valid_name n" by force
  from count_project_lines_tallied [OF assms(1), of base_path dev_root show_exclusions]
  obtain st where c: "count_project_lines base_path dev_root show_exclusions entries = Inr st"
    and t: "tallied base_path (case dev_root of None \<Rightarrow> base_path | Some d \<Rightarrow> d)
              (walked_files base_path entries) init_state st" by blast
  have i: "files_of init_state n = 0" "lines_of init_state n = 0"
    by (simp_all add: init_state_def files_of_def lines_of_def)
  from t i under_key_own_file [OF assms]
  have "files_of st n = 1" "lines_of st n = count_lines_in_file fd"
    by (simp_all add: tallied_def line_total_def)
  with c top_file_key [OF vn] walked_files_key_is_first_part [OF assms(1)]
  show ?thesis by blast
qed

lemma readme_tree_valid: "valid_tree readme_tree"
  by (simp add: readme_tree_def valid_name_def)

lemma readme_join:
  "joinpath (Path ''/'' [''dev'']) ''README.md'' = Path ''/'' [''dev'', ''README.md'']"
  by (simp add: joinpath_valid valid_name_def)

theorem top_level_file_is_own_project_witness:
  "valid_tree readme_tree \<and> distinct (map entry_name readme_tree) \<and>
   File ''README.md'' (readable 7) \<in> set readme_tree \<and>
   should_exclude (joinpath (Path ''/'' [''dev'']) ''README.md'') (Path ''/'' [''dev''])
     (Path ''/'' [''dev'']) = Inr False \<and>
   file_key (Path ''/'' [''dev'']) (joinpath (Path ''/'' [''dev'']) ''README.md'')
     = Some ''README.md'' \<and>
   (\<exists>st. count_project_lines (Path ''/'' [''dev'']) None False readme_tree = Inr st \<and>
         files_of st ''README.md'' = 1 \<and> lines_of st ''README.md'' = 7)"
proof -
  have d: "distinct (map entry_name readme_tree)"
    by (simp add: readme_tree_def)
  have f: "File ''README.md'' (readable 7) \<in> set readme_tree"
    by (simp add: readme_tree_def)
  have i0: "should_exclude (joinpath (Path ''/'' [''dev'']) ''README.md'') (Path ''/'' [''dev''])
             (Path ''/'' [''dev'']) = Inr False"
    by (simp add: readme_join should_exclude_def eval_path)
  then have i: "should_exclude (joinpath (Path ''/'' [''dev'']) ''README.md'') (Path ''/'' [''dev''])
             (case None of None \<Rightarrow> Path ''/'' [''dev''] | Some d \<Rightarrow> d) = Inr False"
    by simp
  have c: "count_lines_in_file (readable 7) = 7"
    by (simp add: count_lines_in_file_def readable_def)
  note own = top_level_file_is_own_project [OF readme_tree_valid d f i, of False]
  from own have k: "file_key (Path ''/'' [''dev'']) (joinpath (Path ''/'' [''dev'']) ''README.md'')
     = Some ''README.md''" by (rule conjunct1)
  from own [THEN conjunct2, THEN conjunct1]
  obtain st where s: "count_project_lines (Path ''/'' [''dev'']) None False readme_tree = Inr st"
    and n: "files_of st ''README.md'' = 1"
    and l: "lines_of st ''README.md'' = count_lines_in_file (readable 7)"
    by (elim exE conjE)
  from l c have l7: "lines_of st ''README.md'' = 7" by simp
  show ?thesis
    by (intro conjI exI [of _ st] readme_tree_valid d f i0 k s n l7)
qed

end
